theory Spec2Isabelle
  imports Main
begin

section \<open>JavaScript values used by the game model\<close>

text \<open>
  The development embeds the entity model of the drawing game (\<^verbatim>\<open>Entity.js\<close>,
  \<^verbatim>\<open>Player.js\<close>, \<^verbatim>\<open>Team.js\<close>, \<^verbatim>\<open>Game.js\<close>) and the
  \<^verbatim>\<open>GameService\<close> singleton. Strings are lists of characters and cover the ASCII
  range: \<^verbatim>\<open>trim\<close> strips the six ASCII white-space characters and
  \<^verbatim>\<open>toLowerCase\<close> maps \<^verbatim>\<open>A-Z\<close> to \<^verbatim>\<open>a-z\<close>. Time stamps
  (\<^verbatim>\<open>createdAt\<close>, \<^verbatim>\<open>lastActivity\<close>) are not part of the state, apart
  from the \<^verbatim>\<open>endedAt\<close> stamp of a history record, which is a parameter.
\<close>

text \<open>An argument that the source tests with \<^verbatim>\<open>typeof x !== 'string'\<close>: either a
  string, or some other value (\<^verbatim>\<open>null\<close>, \<^verbatim>\<open>undefined\<close>, a number, an object).\<close>

datatype jsvalue = JSString string | JSOther

text \<open>Every \<^verbatim>\<open>throw new Error(...)\<close> of the modelled classes, one constructor per message.\<close>

datatype error =
    EntityRequiresIdAndName     \<comment> \<open>Entity requires both id and name\<close>
  | TeamIdRequired              \<comment> \<open>Team ID is required\<close>
  | ValidPlayerRequired         \<comment> \<open>Valid player object is required\<close>
  | PlayerAlreadyInTeam         \<comment> \<open>Player is already in this team\<close>
  | PlayerNotFoundInTeam        \<comment> \<open>Player not found in team\<close>
  | ScoreCannotBeNegative       \<comment> \<open>Score cannot be negative\<close>
  | AtLeastTwoTeamsRequired     \<comment> \<open>At least 2 teams required to start game\<close>
  | AllTeamsMustBeReady         \<comment> \<open>All teams must be ready to start game\<close>
  | TeamAlreadyExists           \<comment> \<open>Team with this ID already exists\<close>
  | MaximumTeamsReached         \<comment> \<open>Maximum number of teams reached\<close>
  | TeamNotFound                \<comment> \<open>Team not found\<close>
  | PlayerAlreadyExists         \<comment> \<open>Player with this ID already exists\<close>
  | PlayerNotFound              \<comment> \<open>Player not found\<close>
  | MustBePlaying               \<comment> \<open>Game must be in playing state to advance round\<close>
  | ValidWordRequired           \<comment> \<open>Valid word is required\<close>
  | AlreadyInitialized          \<comment> \<open>GameService is already initialized\<close>
  | MustBeInitializedFirst      \<comment> \<open>GameService must be initialized first\<close>
  | GameAlreadyInProgress       \<comment> \<open>A game is already in progress. Only one game instance allowed.\<close>
  | ValidGameNameRequired       \<comment> \<open>Valid game name is required\<close>
  | GameNameMustBeUnique        \<comment> \<open>Game name must be unique\<close>
  | ValidNameRequired           \<comment> \<open>Valid name is required\<close>
  | NameMustBeUnique            \<comment> \<open>Name must be unique\<close>

subsection \<open>Strings\<close>

definition isWhiteSpace :: "char \<Rightarrow> bool" where
  "isWhiteSpace c = (of_char c \<in> {9, 10, 11, 12, 13, 32 :: nat})"

definition trimStart :: "string \<Rightarrow> string" where
  "trimStart s = dropWhile isWhiteSpace s"

definition trimEnd :: "string \<Rightarrow> string" where
  "trimEnd s = rev (dropWhile isWhiteSpace (rev s))"

definition trim :: "string \<Rightarrow> string" where
  "trim s = trimEnd (trimStart s)"

definition toLowerChar :: "char \<Rightarrow> char" where
  "toLowerChar c =
     (let n = of_char c :: nat in if 65 \<le> n \<and> n \<le> 90 then char_of (n + 32) else c)"

definition toLowerCase :: "string \<Rightarrow> string" where
  "toLowerCase s = map toLowerChar s"

text \<open>A string-or-null value in a boolean position: \<^verbatim>\<open>null\<close> and \<^verbatim>\<open>''\<close> are falsy.\<close>

definition truthy :: "string option \<Rightarrow> bool" where
  "truthy v = (case v of None \<Rightarrow> False | Some s \<Rightarrow> s \<noteq> [])"

subsection \<open>The built-in Map\<close>

text \<open>A JavaScript \<^verbatim>\<open>Map\<close> keeps its entries in insertion order; \<^verbatim>\<open>set\<close> on a
  present key replaces the value in place, on an absent key it appends.\<close>

definition Map_has :: "('k \<times> 'v) list \<Rightarrow> 'k \<Rightarrow> bool" where
  "Map_has m k = (k \<in> set (map fst m))"

definition Map_get :: "('k \<times> 'v) list \<Rightarrow> 'k \<Rightarrow> 'v option" where
  "Map_get m k = map_of m k"

fun Map_set :: "('k \<times> 'v) list \<Rightarrow> 'k \<Rightarrow> 'v \<Rightarrow> ('k \<times> 'v) list" where
  "Map_set [] k v = [(k, v)]"
| "Map_set (e # m) k v = (if fst e = k then (k, v) # m else e # Map_set m k v)"

definition Map_delete :: "('k \<times> 'v) list \<Rightarrow> 'k \<Rightarrow> ('k \<times> 'v) list" where
  "Map_delete m k = filter (\<lambda>e. fst e \<noteq> k) m"

definition Map_values :: "('k \<times> 'v) list \<Rightarrow> 'v list" where
  "Map_values m = map snd m"

definition Map_size :: "('k \<times> 'v) list \<Rightarrow> nat" where
  "Map_size m = length m"

text \<open>\<^verbatim>\<open>Array.prototype.findIndex\<close>: the first index whose element satisfies the
  predicate, \<^verbatim>\<open>-1\<close> when there is none.\<close>

fun findIndexFrom :: "int \<Rightarrow> ('a \<Rightarrow> bool) \<Rightarrow> 'a list \<Rightarrow> int" where
  "findIndexFrom i P [] = - 1"
| "findIndexFrom i P (x # xs) = (if P x then i else findIndexFrom (i + 1) P xs)"

definition findIndex :: "('a \<Rightarrow> bool) \<Rightarrow> 'a list \<Rightarrow> int" where
  "findIndex P xs = findIndexFrom 0 P xs"

section \<open>Player\<close>

text \<open>Player objects are shared: the game's map and a team's map hold the same object, and
  the current drawer is a reference to it. The model keeps the objects in a store (a list,
  a reference being an index into it) and the maps hold references.\<close>

record Player =
  p_id :: string
  p_name :: string
  p_teamId :: "string option"
  p_score :: int
  p_isDrawing :: bool
  p_isReady :: bool

type_synonym ref = nat
type_synonym store = "Player list"

definition Player_new :: "string \<Rightarrow> string \<Rightarrow> string option \<Rightarrow> error + Player" where
  "Player_new pid pname teamId =
     (if pid = [] \<or> pname = [] then Inl EntityRequiresIdAndName
      else Inr \<lparr>p_id = pid, p_name = pname, p_teamId = teamId, p_score = 0,
                p_isDrawing = False, p_isReady = False\<rparr>)"

text \<open>A method that can throw returns the exception (or the returned value) together with
  the state the call leaves behind.\<close>

definition Player_joinTeam :: "string \<Rightarrow> Player \<Rightarrow> (error + unit) \<times> Player" where
  "Player_joinTeam teamId p =
     (if teamId = [] then (Inl TeamIdRequired, p)
      else (Inr (), p\<lparr>p_teamId := Some teamId\<rparr>))"

definition Player_leaveTeam :: "Player \<Rightarrow> Player" where
  "Player_leaveTeam p = p\<lparr>p_teamId := None, p_isDrawing := False\<rparr>"

definition Player_setDrawing :: "bool \<Rightarrow> Player \<Rightarrow> Player" where
  "Player_setDrawing b p = p\<lparr>p_isDrawing := b\<rparr>"

definition Player_setReady :: "bool \<Rightarrow> Player \<Rightarrow> Player" where
  "Player_setReady b p = p\<lparr>p_isReady := b\<rparr>"

section \<open>Team\<close>

record Team =
  t_id :: string
  t_name :: string
  t_players :: "(string \<times> ref) list"
  t_score :: int
  t_color :: string
  t_isActive :: bool

definition colors :: "string list" where
  "colors = [''#FF6B6B'', ''#4ECDC4'', ''#45B7D1'', ''#96CEB4'',
             ''#FFEAA7'', ''#DDA0DD'', ''#98D8C8'', ''#F7DC6F'']"

text \<open>\<^verbatim>\<open>rnd\<close> stands for \<^verbatim>\<open>Math.floor(Math.random() * colors.length)\<close>.\<close>

definition generateColor :: "nat \<Rightarrow> string" where
  "generateColor rnd = colors ! (rnd mod length colors)"

definition Team_new :: "string \<Rightarrow> string \<Rightarrow> string option \<Rightarrow> nat \<Rightarrow> error + Team" where
  "Team_new tid tname color rnd =
     (if tid = [] \<or> tname = [] then Inl EntityRequiresIdAndName
      else Inr \<lparr>t_id = tid, t_name = tname, t_players = [], t_score = 0,
                t_color = (if truthy color then the color else generateColor rnd),
                t_isActive = True\<rparr>)"

definition Team_addPlayer :: "ref \<Rightarrow> store \<Rightarrow> Team \<Rightarrow> (error + unit) \<times> store \<times> Team" where
  "Team_addPlayer r st t =
     (let player = st ! r in
      if p_id player = [] then (Inl ValidPlayerRequired, st, t)
      else if Map_has (t_players t) (p_id player) then (Inl PlayerAlreadyInTeam, st, t)
      else
        (let t' = t\<lparr>t_players := Map_set (t_players t) (p_id player) r\<rparr> in
         case Player_joinTeam (t_id t) player of
           (Inl e, _) \<Rightarrow> (Inl e, st, t')
         | (Inr _, player') \<Rightarrow> (Inr (), st[r := player'], t')))"

definition Team_removePlayer :: "string \<Rightarrow> store \<Rightarrow> Team \<Rightarrow> (error + unit) \<times> store \<times> Team" where
  "Team_removePlayer playerId st t =
     (case Map_get (t_players t) playerId of
        None \<Rightarrow> (Inl PlayerNotFoundInTeam, st, t)
      | Some r \<Rightarrow>
          (Inr (), st[r := Player_leaveTeam (st ! r)],
           t\<lparr>t_players := Map_delete (t_players t) playerId\<rparr>))"




text \<open>The loop of \<^verbatim>\<open>isReady\<close> over the team's players: the first player that is not
  ready ends it with \<^verbatim>\<open>false\<close>.\<close>

fun allPlayersReady :: "store \<Rightarrow> ref list \<Rightarrow> bool" where
  "allPlayersReady st [] = True"
| "allPlayersReady st (r # rs) = (if \<not> p_isReady (st ! r) then False else allPlayersReady st rs)"

definition Team_isReady :: "store \<Rightarrow> Team \<Rightarrow> bool" where
  "Team_isReady st t =
     (if Map_size (t_players t) = 0 then False
      else allPlayersReady st (Map_values (t_players t)))"




section \<open>Game\<close>

datatype gameState = Waiting | Playing | Paused | Finished

record gameSettings =
  allowSpectators :: bool
  enableChat :: bool
  showScores :: bool

text \<open>The fields of \<^verbatim>\<open>Game\<close>; \<^verbatim>\<open>g_store\<close> holds the Player objects that the
  references of \<^verbatim>\<open>g_players\<close>, of the teams and of \<^verbatim>\<open>g_currentDrawer\<close> point to.\<close>

record Game =
  g_id :: string
  g_name :: string
  g_teams :: "(string \<times> Team) list"
  g_players :: "(string \<times> ref) list"
  g_maxTeams :: int
  g_maxPlayersPerTeam :: int
  g_gameState :: gameState
  g_currentRound :: int
  g_maxRounds :: int
  g_roundTimeLimit :: int
  g_currentWord :: "string option"
  g_currentDrawer :: "ref option"
  g_gameSettings :: gameSettings
  g_store :: store

definition Game_new :: "string \<Rightarrow> string \<Rightarrow> int \<Rightarrow> int \<Rightarrow> error + Game" where
  "Game_new gid gname maxTeams maxPlayersPerTeam =
     (if gid = [] \<or> gname = [] then Inl EntityRequiresIdAndName
      else Inr \<lparr>g_id = gid, g_name = gname, g_teams = [], g_players = [],
                g_maxTeams = maxTeams, g_maxPlayersPerTeam = maxPlayersPerTeam,
                g_gameState = Waiting, g_currentRound = 0, g_maxRounds = 10,
                g_roundTimeLimit = 60, g_currentWord = None, g_currentDrawer = None,
                g_gameSettings = \<lparr>allowSpectators = True, enableChat = True, showScores = True\<rparr>,
                g_store = []\<rparr>)"

text \<open>The getter \<^verbatim>\<open>players\<close>: the values of the map, in insertion order.\<close>

definition Game_players :: "Game \<Rightarrow> ref list" where
  "Game_players g = Map_values (g_players g)"

text \<open>The filter of \<^verbatim>\<open>_selectNextDrawer\<close>:
  \<^verbatim>\<open>player.teamId && this._teams.has(player.teamId)\<close>.\<close>

definition hasExistingTeam :: "Game \<Rightarrow> ref \<Rightarrow> bool" where
  "hasExistingTeam g r =
     (let player = g_store g ! r in
      truthy (p_teamId player) \<and> Map_has (g_teams g) (the (p_teamId player)))"

definition activePlayers :: "Game \<Rightarrow> ref list" where
  "activePlayers g = filter (hasExistingTeam g) (Game_players g)"

text \<open>\<^verbatim>\<open>this._currentDrawer?.id\<close>: \<^verbatim>\<open>undefined\<close> when there is no drawer, and then
  no player's id is equal to it.\<close>

definition currentDrawerId :: "Game \<Rightarrow> string option" where
  "currentDrawerId g = map_option (\<lambda>d. p_id (g_store g ! d)) (g_currentDrawer g)"

text \<open>The dividend \<^verbatim>\<open>currentIndex + 1\<close> is never negative, so the remainder
  \<^verbatim>\<open>%\<close> is \<open>mod\<close>.\<close>

definition Game_selectNextDrawer :: "Game \<Rightarrow> Game" where
  "Game_selectNextDrawer g =
     (let active = activePlayers g in
      if length active = 0 then g\<lparr>g_currentDrawer := None\<rparr>
      else
        (let currentIndex = findIndex (\<lambda>p. Some (p_id (g_store g ! p)) = currentDrawerId g) active;
             nextIndex = (currentIndex + 1) mod int (length active);
             drawer = active ! nat nextIndex
         in g\<lparr>g_currentDrawer := Some drawer,
               g_store := (g_store g)[drawer := Player_setDrawing True (g_store g ! drawer)]\<rparr>))"

fun allReady :: "store \<Rightarrow> Team list \<Rightarrow> bool" where
  "allReady st [] = True"
| "allReady st (t # ts) = (if \<not> Team_isReady st t then False else allReady st ts)"

definition Game_allTeamsReady :: "Game \<Rightarrow> bool" where
  "Game_allTeamsReady g = allReady (g_store g) (Map_values (g_teams g))"

definition Game_startGame :: "Game \<Rightarrow> (error + unit) \<times> Game" where
  "Game_startGame g =
     (if Map_size (g_teams g) < 2 then (Inl AtLeastTwoTeamsRequired, g)
      else if \<not> Game_allTeamsReady g then (Inl AllTeamsMustBeReady, g)
      else (Inr (), Game_selectNextDrawer (g\<lparr>g_gameState := Playing, g_currentRound := 1\<rparr>)))"

definition Game_pauseGame :: "Game \<Rightarrow> (error + unit) \<times> Game" where
  "Game_pauseGame g =
     (if g_gameState g = Playing then (Inr (), g\<lparr>g_gameState := Paused\<rparr>) else (Inr (), g))"

definition Game_resumeGame :: "Game \<Rightarrow> (error + unit) \<times> Game" where
  "Game_resumeGame g =
     (if g_gameState g = Paused then (Inr (), g\<lparr>g_gameState := Playing\<rparr>) else (Inr (), g))"

definition Game_endGame :: "Game \<Rightarrow> Game" where
  "Game_endGame g = g\<lparr>g_gameState := Finished, g_currentDrawer := None, g_currentWord := None\<rparr>"

definition Game_createTeam ::
  "string \<Rightarrow> string \<Rightarrow> string option \<Rightarrow> nat \<Rightarrow> Game \<Rightarrow> (error + Team) \<times> Game" where
  "Game_createTeam teamId teamName color rnd g =
     (if Map_has (g_teams g) teamId then (Inl TeamAlreadyExists, g)
      else if int (Map_size (g_teams g)) \<ge> g_maxTeams g then (Inl MaximumTeamsReached, g)
      else
        (case Team_new teamId teamName color rnd of
           Inl e \<Rightarrow> (Inl e, g)
         | Inr team \<Rightarrow> (Inr team, g\<lparr>g_teams := Map_set (g_teams g) teamId team\<rparr>)))"

text \<open>The loop of \<^verbatim>\<open>removeTeam\<close>: one \<^verbatim>\<open>delete(player.id)\<close> for each player of
  the team.\<close>

fun deletePlayers :: "store \<Rightarrow> ref list \<Rightarrow> (string \<times> ref) list \<Rightarrow> (string \<times> ref) list" where
  "deletePlayers st [] m = m"
| "deletePlayers st (r # rs) m = deletePlayers st rs (Map_delete m (p_id (st ! r)))"

definition Game_removeTeam :: "string \<Rightarrow> Game \<Rightarrow> (error + unit) \<times> Game" where
  "Game_removeTeam teamId g =
     (case Map_get (g_teams g) teamId of
        None \<Rightarrow> (Inl TeamNotFound, g)
      | Some team \<Rightarrow>
          (Inr (), g\<lparr>g_players := deletePlayers (g_store g) (Map_values (t_players team)) (g_players g),
                     g_teams := Map_delete (g_teams g) teamId\<rparr>))"

text \<open>\<^verbatim>\<open>addPlayer\<close> stores the new player before it calls the team, so an exception of
  \<^verbatim>\<open>team.addPlayer\<close> leaves the player in the game's map. The returned value is the
  reference of the new Player object.\<close>

definition Game_addPlayer ::
  "string \<Rightarrow> string \<Rightarrow> string option \<Rightarrow> Game \<Rightarrow> (error + ref) \<times> Game" where
  "Game_addPlayer playerId playerName teamId g =
     (if Map_has (g_players g) playerId then (Inl PlayerAlreadyExists, g)
      else
        (case Player_new playerId playerName teamId of
           Inl e \<Rightarrow> (Inl e, g)
         | Inr player \<Rightarrow>
             (let r = length (g_store g);
                  g1 = g\<lparr>g_store := g_store g @ [player],
                         g_players := Map_set (g_players g) playerId r\<rparr>
              in if truthy teamId \<and> Map_has (g_teams g1) (the teamId) then
                   (case Map_get (g_teams g1) (the teamId) of
                      None \<Rightarrow> (Inr r, g1)
                    | Some team \<Rightarrow>
                        (case Team_addPlayer r (g_store g1) team of
                           (res, st', team') \<Rightarrow>
                             (let g2 = g1\<lparr>g_store := st',
                                          g_teams := Map_set (g_teams g1) (the teamId) team'\<rparr>
                              in case res of Inl e \<Rightarrow> (Inl e, g2) | Inr _ \<Rightarrow> (Inr r, g2))))
                 else (Inr r, g1))))"

definition Game_removePlayer :: "string \<Rightarrow> Game \<Rightarrow> (error + unit) \<times> Game" where
  "Game_removePlayer playerId g =
     (case Map_get (g_players g) playerId of
        None \<Rightarrow> (Inl PlayerNotFound, g)
      | Some r \<Rightarrow>
          (let player = g_store g ! r in
           if truthy (p_teamId player) \<and> Map_has (g_teams g) (the (p_teamId player)) then
             (case Map_get (g_teams g) (the (p_teamId player)) of
                None \<Rightarrow> (Inr (), g\<lparr>g_players := Map_delete (g_players g) playerId\<rparr>)
              | Some team \<Rightarrow>
                  (case Team_removePlayer playerId (g_store g) team of
                     (Inl e, _, _) \<Rightarrow> (Inl e, g)
                   | (Inr _, st', team') \<Rightarrow>
                       (Inr (), g\<lparr>g_store := st',
                                  g_teams := Map_set (g_teams g) (the (p_teamId player)) team',
                                  g_players := Map_delete (g_players g) playerId\<rparr>)))
           else (Inr (), g\<lparr>g_players := Map_delete (g_players g) playerId\<rparr>)))"

definition Game_nextRound :: "Game \<Rightarrow> (error + unit) \<times> Game" where
  "Game_nextRound g =
     (if g_gameState g \<noteq> Playing then (Inl MustBePlaying, g)
      else
        (let g1 = g\<lparr>g_currentRound := g_currentRound g + 1\<rparr> in
         if g_currentRound g1 > g_maxRounds g1 then (Inr (), Game_endGame g1)
         else (Inr (), Game_selectNextDrawer g1)))"

definition Game_setCurrentWord :: "jsvalue \<Rightarrow> Game \<Rightarrow> (error + unit) \<times> Game" where
  "Game_setCurrentWord word g =
     (case word of
        JSOther \<Rightarrow> (Inl ValidWordRequired, g)
      | JSString w \<Rightarrow>
          (if w = [] then (Inl ValidWordRequired, g)
           else (Inr (), g\<lparr>g_currentWord := Some (trim (toLowerCase w))\<rparr>)))"

text \<open>\<^verbatim>\<open>game.getPlayer(id).setReady(b)\<close>: the ready flag is set on the Player object,
  which the game never does by itself. On an unknown id \<^verbatim>\<open>getPlayer\<close> is
  \<^verbatim>\<open>undefined\<close> and nothing is changed.\<close>

definition Game_setPlayerReady :: "string \<Rightarrow> bool \<Rightarrow> Game \<Rightarrow> Game" where
  "Game_setPlayerReady playerId b g =
     (case Map_get (g_players g) playerId of
        None \<Rightarrow> g
      | Some r \<Rightarrow> g\<lparr>g_store := (g_store g)[r := Player_setReady b (g_store g ! r)]\<rparr>)"

section \<open>GameService\<close>

text \<open>A history record: the serialized game (\<^verbatim>\<open>toJSON()\<close>, here the value of the
  game at that moment) and \<^verbatim>\<open>endedAt\<close>.\<close>

record historyEntry =
  h_game :: Game
  h_endedAt :: nat

record GameService =
  currentGame :: "Game option"
  gameHistory :: "historyEntry list"
  uniqueNames :: "string set"
  isInitialized :: bool

record gameOptions =
  maxTeams :: "int option"
  maxPlayersPerTeam :: "int option"

text \<open>\<^verbatim>\<open>options.maxTeams || 4\<close>: a missing or zero option gives the default.\<close>

definition orDefault :: "int option \<Rightarrow> int \<Rightarrow> int" where
  "orDefault v d = (case v of None \<Rightarrow> d | Some n \<Rightarrow> if n = 0 then d else n)"

definition GameService_new :: GameService where
  "GameService_new =
     \<lparr>currentGame = None, gameHistory = [], uniqueNames = {}, isInitialized = False\<rparr>"

definition initialize :: "GameService \<Rightarrow> (error + unit) \<times> GameService" where
  "initialize s =
     (if isInitialized s then (Inl AlreadyInitialized, s)
      else (Inr (), s\<lparr>isInitialized := True\<rparr>))"

text \<open>\<^verbatim>\<open>uuid\<close> stands for the result of \<^verbatim>\<open>uuidv4()\<close>.\<close>

definition createGame ::
  "jsvalue \<Rightarrow> gameOptions \<Rightarrow> string \<Rightarrow> GameService \<Rightarrow> (error + Game) \<times> GameService" where
  "createGame gameName options uuid s =
     (if \<not> isInitialized s then (Inl MustBeInitializedFirst, s)
      else if currentGame s \<noteq> None then (Inl GameAlreadyInProgress, s)
      else
        (case gameName of
           JSOther \<Rightarrow> (Inl ValidGameNameRequired, s)
         | JSString n \<Rightarrow>
             (if n = [] then (Inl ValidGameNameRequired, s)
              else
                (let normalizedName = toLowerCase (trim n) in
                 if normalizedName \<in> uniqueNames s then (Inl GameNameMustBeUnique, s)
                 else
                   (case Game_new uuid (trim n) (orDefault (maxTeams options) 4)
                           (orDefault (maxPlayersPerTeam options) 6) of
                      Inl e \<Rightarrow> (Inl e, s)
                    | Inr game \<Rightarrow>
                        (Inr game,
                         s\<lparr>currentGame := Some game,
                           uniqueNames := insert normalizedName (uniqueNames s)\<rparr>))))))"

definition getCurrentGame :: "GameService \<Rightarrow> Game option" where
  "getCurrentGame s = currentGame s"

text \<open>\<^verbatim>\<open>now\<close> stands for \<^verbatim>\<open>new Date()\<close>.\<close>

definition endCurrentGame :: "nat \<Rightarrow> GameService \<Rightarrow> Game option \<times> GameService" where
  "endCurrentGame now s =
     (case currentGame s of
        None \<Rightarrow> (None, s)
      | Some g \<Rightarrow>
          (let endedGame = Game_endGame g;
               normalizedName = toLowerCase (g_name endedGame)
           in (Some endedGame,
               s\<lparr>gameHistory := gameHistory s @ [\<lparr>h_game = endedGame, h_endedAt = now\<rparr>],
                 uniqueNames := uniqueNames s - {normalizedName},
                 currentGame := None\<rparr>)))"




section \<open>Team: readiness and score\<close>

lemma allPlayersReady_iff: "allPlayersReady st rs = (\<forall>r \<in> set rs. p_isReady (st ! r))"
  by (induction rs) auto

text \<open>
  Claim C8. \<^verbatim>\<open>isReady()\<close> is false for a team with zero players; for a team with at
  least one player it is true exactly when the ready flag of every member is true.
\<close>

theorem Team_isReady_iff:
  "(Map_size (t_players t) = 0 \<longrightarrow> \<not> Team_isReady st t) \<and>
   (1 \<le> Map_size (t_players t) \<longrightarrow>
      Team_isReady st t = (\<forall>r \<in> set (Map_values (t_players t)). p_isReady (st ! r)))"
  by (simp add: Team_isReady_def allPlayersReady_iff)

text \<open>A team without players, and a team of two players over a store of three.\<close>

definition redTeam :: Team where
  "redTeam = \<lparr>t_id = ''red'', t_name = ''Red'', t_players = [], t_score = 0,
              t_color = ''#FF6B6B'', t_isActive = True\<rparr>"

definition threePlayers :: store where
  "threePlayers =
     [\<lparr>p_id = ''a'', p_name = ''Ann'', p_teamId = Some ''blue'', p_score = 0,
       p_isDrawing = False, p_isReady = True\<rparr>,
      \<lparr>p_id = ''b'', p_name = ''Bob'', p_teamId = Some ''blue'', p_score = 0,
       p_isDrawing = False, p_isReady = True\<rparr>,
      \<lparr>p_id = ''c'', p_name = ''Cy'', p_teamId = None, p_score = 0,
       p_isDrawing = False, p_isReady = False\<rparr>]"

definition blueTeam :: Team where
  "blueTeam = \<lparr>t_id = ''blue'', t_name = ''Blue'', t_players = [(''a'', 0), (''b'', 1)],
               t_score = 0, t_color = ''#4ECDC4'', t_isActive = True\<rparr>"

theorem Team_isReady_iff_witness:
  "Map_size (t_players redTeam) = 0 \<and> \<not> Team_isReady threePlayers redTeam \<and>
   1 \<le> Map_size (t_players blueTeam) \<and> Team_isReady threePlayers blueTeam \<and>
   p_isReady (threePlayers ! 0) \<and> p_isReady (threePlayers ! 1) \<and>
   \<not> Team_isReady (threePlayers[1 := Player_setReady False (threePlayers ! 1)]) blueTeam"
  using Team_isReady_iff[of redTeam threePlayers] Team_isReady_iff[of blueTeam threePlayers]
    Team_isReady_iff[of blueTeam "threePlayers[1 := Player_setReady False (threePlayers ! 1)]"]
  by (simp add: redTeam_def blueTeam_def threePlayers_def Map_size_def Map_values_def
        Player_setReady_def)










section \<open>Normalized names\<close>








lemma trimStart_trimEnd_unpadded:
  assumes "t = [] \<or> \<not> isWhiteSpace (hd t)"
  shows "trimStart (trimEnd t) = trimEnd t"
proof (cases t)
  case Nil
  then show ?thesis by (simp add: trimStart_def trimEnd_def)
next
  case (Cons x xs)
  with assms have "\<not> isWhiteSpace x" by simp
  then show ?thesis using Cons by (simp add: trimStart_def trimEnd_def dropWhile_append3)
qed

lemma trimEnd_idem: "trimEnd (trimEnd u) = trimEnd u"
  by (simp add: trimEnd_def)

lemma trim_idem: "trim (trim s) = trim s"
proof -
  have "trimStart s = [] \<or> \<not> isWhiteSpace (hd (trimStart s))"
    using hd_dropWhile[of isWhiteSpace s] by (auto simp: trimStart_def)
  then have "trimStart (trimEnd (trimStart s)) = trimEnd (trimStart s)"
    by (rule trimStart_trimEnd_unpadded)
  then show ?thesis by (simp add: trim_def trimEnd_idem)
qed

section \<open>GameService: creating and ending the game\<close>


definition freshService :: GameService where
  "freshService = snd (initialize GameService_new)"

definition pictionaryNight :: Game where
  "pictionaryNight =
     \<lparr>g_id = ''id-1'', g_name = ''Pictionary Night'', g_teams = [], g_players = [],
      g_maxTeams = 4, g_maxPlayersPerTeam = 6, g_gameState = Waiting, g_currentRound = 0,
      g_maxRounds = 10, g_roundTimeLimit = 60, g_currentWord = None, g_currentDrawer = None,
      g_gameSettings = \<lparr>allowSpectators = True, enableChat = True, showScores = True\<rparr>,
      g_store = []\<rparr>"

definition activeService :: GameService where
  "activeService =
     \<lparr>currentGame = Some pictionaryNight, gameHistory = [],
      uniqueNames = {''pictionary night''}, isInitialized = True\<rparr>"

lemma freshService_eq:
  "freshService = \<lparr>currentGame = None, gameHistory = [], uniqueNames = {}, isInitialized = True\<rparr>"
  by (simp add: freshService_def initialize_def GameService_new_def)

lemma normalize_Pictionary_Night:
  "trim ''Pictionary Night'' = ''Pictionary Night'' \<and>
   toLowerCase ''Pictionary Night'' = ''pictionary night'' \<and>
   toLowerCase (trim ''  PICTIONARY night '') = ''pictionary night''"
  by code_simp







text \<open>
  Claim C2. Without an active game \<^verbatim>\<open>endCurrentGame()\<close> returns none and leaves the
  service as it is (history, unique names, active slot). With an active game, whose name
  is trimmed as every name stored by \<^verbatim>\<open>createGame\<close> is, it sets the game's state to
  finished, appends exactly one record of the game and the end time to the history, removes
  the normalized name of the game from the unique-name set, clears the active slot and
  returns the ended game.
\<close>

theorem endCurrentGame_outcomes:
  "(currentGame s = None \<longrightarrow> endCurrentGame now s = (None, s)) \<and>
   (\<forall>g. currentGame s = Some g \<and> trim (g_name g) = g_name g \<longrightarrow>
      (\<exists>ended s'. endCurrentGame now s = (Some ended, s') \<and>
         ended = g\<lparr>g_gameState := Finished, g_currentDrawer := None, g_currentWord := None\<rparr> \<and>
         s' = s\<lparr>gameHistory := gameHistory s @ [\<lparr>h_game = ended, h_endedAt = now\<rparr>],
                uniqueNames := uniqueNames s - {toLowerCase (trim (g_name g))},
                currentGame := None\<rparr> \<and>
         length (gameHistory s') = length (gameHistory s) + 1 \<and>
         currentGame s' = None))"
  by (simp add: endCurrentGame_def Game_endGame_def Let_def)

theorem endCurrentGame_outcomes_witness:
  "currentGame freshService = None \<and> endCurrentGame 7 freshService = (None, freshService) \<and>
   currentGame activeService = Some pictionaryNight \<and>
   trim (g_name pictionaryNight) = g_name pictionaryNight \<and>
   endCurrentGame 7 activeService =
     (Some (pictionaryNight\<lparr>g_gameState := Finished\<rparr>),
      \<lparr>currentGame = None,
       gameHistory = [\<lparr>h_game = pictionaryNight\<lparr>g_gameState := Finished\<rparr>, h_endedAt = 7\<rparr>],
       uniqueNames = {}, isInitialized = True\<rparr>)"
  using endCurrentGame_outcomes[of freshService 7] endCurrentGame_outcomes[of activeService 7]
  by (simp add: freshService_eq activeService_def pictionaryNight_def normalize_Pictionary_Night)

text \<open>The game that \<^verbatim>\<open>createGame\<close> stores has a trimmed name.\<close>

lemma createGame_name_trimmed:
  "createGame name opts uuid s = (Inr g, s') \<Longrightarrow>
   currentGame s' = Some g \<and> trim (g_name g) = g_name g"
  by (auto simp: createGame_def Game_new_def Let_def trim_idem split: if_splits jsvalue.splits)



section \<open>The round-robin rule\<close>

text \<open>
  The rule in the words of the specification. The candidates are the players of the game
  whose team reference resolves to an existing team, in the order of the game's map. The
  next drawer comes after the player who was drawing last: the candidate at the following
  index, index 0 after the last candidate. When none was drawing, or the last drawer is
  not among the candidates (players are compared by id), it is the candidate at index 0;
  without candidates there is no drawer.
\<close>

definition indexOfLastDrawer :: "Game \<Rightarrow> ref list \<Rightarrow> nat option" where
  "indexOfLastDrawer g rs =
     (case g_currentDrawer g of
        None \<Rightarrow> None
      | Some d \<Rightarrow>
          (let i = length (takeWhile (\<lambda>r. p_id (g_store g ! r) \<noteq> p_id (g_store g ! d)) rs)
           in if i < length rs then Some i else None))"

definition roundRobinNext :: "Game \<Rightarrow> ref option" where
  "roundRobinNext g =
     (let candidates = activePlayers g in
      if candidates = [] then None
      else
        (case indexOfLastDrawer g candidates of
           None \<Rightarrow> Some (candidates ! 0)
         | Some i \<Rightarrow> Some (candidates ! (if i + 1 < length candidates then i + 1 else 0))))"

text \<open>The store after \<^verbatim>\<open>setDrawing(true)\<close> on the chosen drawer, if there is one.\<close>

definition withDrawer :: "ref option \<Rightarrow> store \<Rightarrow> store" where
  "withDrawer d st = (case d of None \<Rightarrow> st | Some r \<Rightarrow> st[r := (st ! r)\<lparr>p_isDrawing := True\<rparr>])"

text \<open>\<open>k\<close> calls of \<^verbatim>\<open>nextRound()\<close> in a row, stopping at the first exception.\<close>

fun nextRounds :: "nat \<Rightarrow> Game \<Rightarrow> (error + unit) \<times> Game" where
  "nextRounds 0 g = (Inr (), g)"
| "nextRounds (Suc k) g =
     (case Game_nextRound g of
        (Inl e, g') \<Rightarrow> (Inl e, g')
      | (Inr _, g') \<Rightarrow> nextRounds k g')"

text \<open>\<^verbatim>\<open>findIndex\<close> and the remainder, against the index arithmetic of the rule.\<close>

lemma findIndexFrom_takeWhile:
  "findIndexFrom k P xs =
     (let i = length (takeWhile (\<lambda>x. \<not> P x) xs) in if i < length xs then k + int i else - 1)"
  by (induction xs arbitrary: k) (auto simp: Let_def)

lemma findIndexFrom_never: "findIndexFrom k (\<lambda>x. False) xs = - 1"
  by (induction xs arbitrary: k) auto

lemma findIndex_found:
  "length (takeWhile (\<lambda>x. \<not> P x) xs) < length xs \<Longrightarrow>
   findIndex P xs = int (length (takeWhile (\<lambda>x. \<not> P x) xs))"
  by (simp add: findIndex_def findIndexFrom_takeWhile)

lemma findIndex_missing:
  "\<not> length (takeWhile (\<lambda>x. \<not> P x) xs) < length xs \<Longrightarrow> findIndex P xs = - 1"
  by (simp add: findIndex_def findIndexFrom_takeWhile)

lemma next_index_wraps:
  assumes "i < n"
  shows "nat ((int i + 1) mod int n) = (if i + 1 < n then i + 1 else 0)"
proof (cases "i + 1 < n")
  case True
  then have "(int i + 1) mod int n = int i + 1" by simp
  then show ?thesis using True by simp
next
  case False
  with assms have "i + 1 = n" by simp
  then have "int i + 1 = int n" by simp
  then show ?thesis using False by simp
qed

lemma selectNextDrawer_drawer:
  "g_currentDrawer (Game_selectNextDrawer g) = roundRobinNext g"
proof (cases "activePlayers g = []")
  case True
  then show ?thesis by (simp add: Game_selectNextDrawer_def roundRobinNext_def)
next
  case False
  let ?cs = "activePlayers g"
  show ?thesis
  proof (cases "g_currentDrawer g")
    case None
    then have "findIndex (\<lambda>p. Some (p_id (g_store g ! p)) = currentDrawerId g) ?cs = - 1"
      by (simp add: findIndex_def findIndexFrom_never currentDrawerId_def)
    then show ?thesis using False None
      by (simp add: Game_selectNextDrawer_def roundRobinNext_def indexOfLastDrawer_def Let_def)
  next
    case (Some d)
    let ?P = "\<lambda>p. Some (p_id (g_store g ! p)) = currentDrawerId g"
    let ?i = "length (takeWhile (\<lambda>r. p_id (g_store g ! r) \<noteq> p_id (g_store g ! d)) ?cs)"
    have tw: "length (takeWhile (\<lambda>x. \<not> ?P x) ?cs) = ?i"
      using Some by (simp add: currentDrawerId_def)
    show ?thesis
    proof (cases "?i < length ?cs")
      case True
      then have "findIndex ?P ?cs = int ?i" using findIndex_found[of ?P ?cs] tw by simp
      then show ?thesis using False Some True next_index_wraps[OF True]
        by (simp add: Game_selectNextDrawer_def roundRobinNext_def indexOfLastDrawer_def Let_def)
    next
      case notfound: False
      then have "findIndex ?P ?cs = - 1" using findIndex_missing[of ?P ?cs] tw by simp
      then show ?thesis using False Some notfound
        by (simp add: Game_selectNextDrawer_def roundRobinNext_def indexOfLastDrawer_def Let_def)
    qed
  qed
qed

lemma selectNextDrawer_frame:
  "Game_selectNextDrawer g =
     g\<lparr>g_currentDrawer := roundRobinNext g,
       g_store := withDrawer (roundRobinNext g) (g_store g)\<rparr>"
proof -
  have "Game_selectNextDrawer g =
     g\<lparr>g_currentDrawer := g_currentDrawer (Game_selectNextDrawer g),
       g_store := withDrawer (g_currentDrawer (Game_selectNextDrawer g)) (g_store g)\<rparr>"
    by (simp add: Game_selectNextDrawer_def Let_def Player_setDrawing_def withDrawer_def)
  then show ?thesis by (simp add: selectNextDrawer_drawer)
qed

lemma roundRobinNext_cong:
  assumes "g_store g' = g_store g" and "g_teams g' = g_teams g"
    and "g_players g' = g_players g" and "g_currentDrawer g' = g_currentDrawer g"
  shows "roundRobinNext g' = roundRobinNext g"
proof -
  have "hasExistingTeam g' = hasExistingTeam g"
    using assms by (simp add: hasExistingTeam_def fun_eq_iff)
  then have "activePlayers g' = activePlayers g"
    using assms by (simp add: activePlayers_def Game_players_def)
  moreover have "indexOfLastDrawer g' rs = indexOfLastDrawer g rs" for rs
    using assms by (simp add: indexOfLastDrawer_def split: option.splits)
  ultimately show ?thesis by (simp add: roundRobinNext_def Let_def)
qed


section \<open>Game: starting and advancing rounds\<close>


lemma nextRound_playing:
  assumes "g_gameState g = Playing" and "g_currentRound g + 1 \<le> g_maxRounds g"
  shows "Game_nextRound g =
     (Inr (), g\<lparr>g_currentRound := g_currentRound g + 1,
               g_currentDrawer := roundRobinNext g,
               g_store := withDrawer (roundRobinNext g) (g_store g)\<rparr>)"
proof -
  have rr: "roundRobinNext (g\<lparr>g_currentRound := g_currentRound g + 1\<rparr>) = roundRobinNext g"
    by (rule roundRobinNext_cong) simp_all
  show ?thesis
    using assms
    by (simp add: Game_nextRound_def Let_def
          selectNextDrawer_frame[of "g\<lparr>g_currentRound := g_currentRound g + 1\<rparr>"] rr)
qed

lemma nextRound_last:
  assumes "g_gameState g = Playing" and "g_maxRounds g < g_currentRound g + 1"
  shows "Game_nextRound g =
     (Inr (), g\<lparr>g_currentRound := g_currentRound g + 1, g_gameState := Finished,
               g_currentDrawer := None, g_currentWord := None\<rparr>)"
  using assms by (simp add: Game_nextRound_def Game_endGame_def Let_def)

lemma nextRounds_playing:
  "g_gameState g = Playing \<Longrightarrow> g_currentRound g + int k \<le> g_maxRounds g \<Longrightarrow>
   \<exists>g'. nextRounds k g = (Inr (), g') \<and> g_currentRound g' = g_currentRound g + int k \<and>
        g_gameState g' = Playing \<and> g_maxRounds g' = g_maxRounds g"
proof (induction k arbitrary: g)
  case 0
  then show ?case by simp
next
  case (Suc k)
  let ?g1 = "g\<lparr>g_currentRound := g_currentRound g + 1,
               g_currentDrawer := roundRobinNext g,
               g_store := withDrawer (roundRobinNext g) (g_store g)\<rparr>"
  have step: "Game_nextRound g = (Inr (), ?g1)"
    using Suc.prems by (intro nextRound_playing) simp_all
  have "g_gameState ?g1 = Playing" and "g_currentRound ?g1 + int k \<le> g_maxRounds ?g1"
    using Suc.prems by simp_all
  from Suc.IH[OF this] obtain g' where
    "nextRounds k ?g1 = (Inr (), g')" "g_currentRound g' = g_currentRound ?g1 + int k"
    "g_gameState g' = Playing" "g_maxRounds g' = g_maxRounds ?g1"
    by blast
  then show ?case using step by simp
qed

text \<open>
  Claim C3. \<^verbatim>\<open>nextRound()\<close> fails when the state is not playing. Otherwise the round
  number is incremented; when the new round exceeds the maximum the game is finished, the
  drawer is unset and no drawer is selected (the store is untouched); when it does not, the
  drawer is chosen by the round-robin rule of \<^verbatim>\<open>startGame\<close>. After a successful
  \<^verbatim>\<open>startGame()\<close> with a maximum of 10 rounds, nine calls reach round 10, still
  playing, and the tenth finishes the game.
\<close>

theorem nextRound_outcomes:
  "(g_gameState g \<noteq> Playing \<longrightarrow> Game_nextRound g = (Inl MustBePlaying, g)) \<and>
   (g_gameState g = Playing \<and> g_maxRounds g < g_currentRound g + 1 \<longrightarrow>
      Game_nextRound g =
        (Inr (), g\<lparr>g_currentRound := g_currentRound g + 1, g_gameState := Finished,
                  g_currentDrawer := None, g_currentWord := None\<rparr>)) \<and>
   (g_gameState g = Playing \<and> g_currentRound g + 1 \<le> g_maxRounds g \<longrightarrow>
      Game_nextRound g =
        (Inr (), g\<lparr>g_currentRound := g_currentRound g + 1,
                  g_currentDrawer := roundRobinNext g,
                  g_store := withDrawer (roundRobinNext g) (g_store g)\<rparr>)) \<and>
   (\<forall>g1. Game_startGame g = (Inr (), g1) \<and> g_maxRounds g = 10 \<longrightarrow>
      (\<exists>g10 g11. nextRounds 9 g1 = (Inr (), g10) \<and>
         g_currentRound g10 = 10 \<and> g_gameState g10 = Playing \<and>
         Game_nextRound g10 = (Inr (), g11) \<and>
         g_gameState g11 = Finished \<and> g_currentDrawer g11 = None))"
proof -
  have notplaying: "g_gameState g \<noteq> Playing \<Longrightarrow> Game_nextRound g = (Inl MustBePlaying, g)"
    by (simp add: Game_nextRound_def)
  have scenario: "\<exists>g10 g11. nextRounds 9 g1 = (Inr (), g10) \<and>
         g_currentRound g10 = 10 \<and> g_gameState g10 = Playing \<and>
         Game_nextRound g10 = (Inr (), g11) \<and>
         g_gameState g11 = Finished \<and> g_currentDrawer g11 = None"
    if start: "Game_startGame g = (Inr (), g1)" and max: "g_maxRounds g = 10" for g1
  proof -
    from start have g1: "g_gameState g1 = Playing" "g_currentRound g1 = 1" "g_maxRounds g1 = 10"
      using max
      by (auto simp: Game_startGame_def
            selectNextDrawer_frame[of "g\<lparr>g_gameState := Playing, g_currentRound := 1\<rparr>"]
            split: if_splits)
    then have "g_currentRound g1 + int 9 \<le> g_maxRounds g1" by simp
    from nextRounds_playing[OF g1(1) this] obtain g10 where
      g10: "nextRounds 9 g1 = (Inr (), g10)" "g_currentRound g10 = 10"
        "g_gameState g10 = Playing" "g_maxRounds g10 = 10"
      using g1 by auto
    then have "g_maxRounds g10 < g_currentRound g10 + 1" by simp
    from nextRound_last[OF g10(3) this] show ?thesis using g10 by simp
  qed
  show ?thesis
    using notplaying nextRound_last[of g] nextRound_playing[of g] scenario by blast
qed

section \<open>Game: reachable states\<close>

text \<open>
  The public operations of a game. \<^verbatim>\<open>SetPlayerReady\<close> is the ready flag of a player
  of the game, set on the Player object: without it no team is ever ready and no game
  starts. A caller catches an exception and goes on with the state the call left.
\<close>

datatype game_op =
    StartGame
  | PauseGame
  | ResumeGame
  | EndGame
  | NextRound
  | CreateTeam string string "string option" nat
  | RemoveTeam string
  | AddPlayer string string "string option"
  | RemovePlayer string
  | SetCurrentWord jsvalue
  | SetPlayerReady string bool

fun game_call :: "game_op \<Rightarrow> Game \<Rightarrow> Game" where
  "game_call StartGame g = snd (Game_startGame g)"
| "game_call PauseGame g = snd (Game_pauseGame g)"
| "game_call ResumeGame g = snd (Game_resumeGame g)"
| "game_call EndGame g = Game_endGame g"
| "game_call NextRound g = snd (Game_nextRound g)"
| "game_call (CreateTeam teamId teamName color rnd) g = snd (Game_createTeam teamId teamName color rnd g)"
| "game_call (RemoveTeam teamId) g = snd (Game_removeTeam teamId g)"
| "game_call (AddPlayer playerId playerName teamId) g = snd (Game_addPlayer playerId playerName teamId g)"
| "game_call (RemovePlayer playerId) g = snd (Game_removePlayer playerId g)"
| "game_call (SetCurrentWord word) g = snd (Game_setCurrentWord word g)"
| "game_call (SetPlayerReady playerId b) g = Game_setPlayerReady playerId b g"

fun game_calls :: "game_op list \<Rightarrow> Game \<Rightarrow> Game" where
  "game_calls [] g = g"
| "game_calls (c # cs) g = game_calls cs (game_call c g)"

text \<open>Example games: two teams, Ann and Bob in Red and Cy in Blue, everybody ready; the
  same with Cy not ready; the game after \<^verbatim>\<open>startGame()\<close>, and in round 10.\<close>

definition setUp :: "game_op list" where
  "setUp =
     [CreateTeam ''red'' ''Red'' None 0, CreateTeam ''blue'' ''Blue'' None 1,
      AddPlayer ''a'' ''Ann'' (Some ''red''), AddPlayer ''b'' ''Bob'' (Some ''red''),
      AddPlayer ''c'' ''Cy'' (Some ''blue''),
      SetPlayerReady ''a'' True, SetPlayerReady ''b'' True, SetPlayerReady ''c'' True]"

definition readyGame :: Game where
  "readyGame =
     pictionaryNight
       \<lparr>g_teams :=
          [(''red'', \<lparr>t_id = ''red'', t_name = ''Red'', t_players = [(''a'', 0), (''b'', 1)],
                     t_score = 0, t_color = ''#FF6B6B'', t_isActive = True\<rparr>),
           (''blue'', \<lparr>t_id = ''blue'', t_name = ''Blue'', t_players = [(''c'', 2)],
                      t_score = 0, t_color = ''#4ECDC4'', t_isActive = True\<rparr>)],
        g_players := [(''a'', 0), (''b'', 1), (''c'', 2)],
        g_store :=
          [\<lparr>p_id = ''a'', p_name = ''Ann'', p_teamId = Some ''red'', p_score = 0,
            p_isDrawing = False, p_isReady = True\<rparr>,
           \<lparr>p_id = ''b'', p_name = ''Bob'', p_teamId = Some ''red'', p_score = 0,
            p_isDrawing = False, p_isReady = True\<rparr>,
           \<lparr>p_id = ''c'', p_name = ''Cy'', p_teamId = Some ''blue'', p_score = 0,
            p_isDrawing = False, p_isReady = True\<rparr>]\<rparr>"

lemma setUp_readyGame: "game_calls setUp pictionaryNight = readyGame"
  by code_simp

text \<open>The invariant of the round counter: the limit is 10, and the round is within the
  limit or one above it in a finished game.\<close>

definition roundInv :: "Game \<Rightarrow> bool" where
  "roundInv g =
     (g_maxRounds g = 10 \<and>
      (g_currentRound g \<le> g_maxRounds g \<or>
       g_currentRound g = g_maxRounds g + 1 \<and> g_gameState g = Finished))"

lemma startGame_roundInv: "roundInv g \<Longrightarrow> roundInv (snd (Game_startGame g))"
  by (auto simp: roundInv_def Game_startGame_def
        selectNextDrawer_frame[of "g\<lparr>g_gameState := Playing, g_currentRound := 1\<rparr>"])

lemma nextRound_roundInv: "roundInv g \<Longrightarrow> roundInv (snd (Game_nextRound g))"
  by (auto simp: roundInv_def Game_nextRound_def Game_endGame_def Let_def
        selectNextDrawer_frame[of "g\<lparr>g_currentRound := g_currentRound g + 1\<rparr>"])

text \<open>The team and player operations leave the round, the state and the limit alone.\<close>

definition sameRound :: "Game \<Rightarrow> Game \<Rightarrow> bool" where
  "sameRound g' g =
     (g_currentRound g' = g_currentRound g \<and> g_gameState g' = g_gameState g \<and>
      g_maxRounds g' = g_maxRounds g)"

lemma createTeam_sameRound: "sameRound (snd (Game_createTeam k n c rnd g)) g"
  by (simp add: sameRound_def Game_createTeam_def Team_new_def)

lemma removeTeam_sameRound: "sameRound (snd (Game_removeTeam k g)) g"
  by (simp add: sameRound_def Game_removeTeam_def split: option.splits)

lemma addPlayer_sameRound: "sameRound (snd (Game_addPlayer k n t g)) g"
  by (simp add: sameRound_def Game_addPlayer_def Player_new_def Let_def
        split: option.splits prod.splits sum.splits)

lemma removePlayer_sameRound: "sameRound (snd (Game_removePlayer k g)) g"
  by (simp add: sameRound_def Game_removePlayer_def Let_def
        split: option.splits prod.splits sum.splits)

lemma setCurrentWord_sameRound: "sameRound (snd (Game_setCurrentWord w g)) g"
  by (simp add: sameRound_def Game_setCurrentWord_def split: jsvalue.splits)

lemma setPlayerReady_sameRound: "sameRound (Game_setPlayerReady k b g) g"
  by (simp add: sameRound_def Game_setPlayerReady_def split: option.splits)

lemma sameRound_roundInv: "sameRound g' g \<Longrightarrow> roundInv g \<Longrightarrow> roundInv g'"
  by (auto simp: sameRound_def roundInv_def)

lemma game_call_roundInv:
  assumes "roundInv g"
  shows "roundInv (game_call c g)"
proof (cases c)
  case StartGame
  then show ?thesis using assms by (simp add: startGame_roundInv)
next
  case PauseGame
  then show ?thesis using assms by (auto simp: roundInv_def Game_pauseGame_def)
next
  case ResumeGame
  then show ?thesis using assms by (auto simp: roundInv_def Game_resumeGame_def)
next
  case EndGame
  then show ?thesis using assms by (auto simp: roundInv_def Game_endGame_def)
next
  case NextRound
  then show ?thesis using assms by (simp add: nextRound_roundInv)
next
  case (CreateTeam k n col rnd)
  then show ?thesis using assms sameRound_roundInv[OF createTeam_sameRound] by simp
next
  case (RemoveTeam k)
  then show ?thesis using assms sameRound_roundInv[OF removeTeam_sameRound] by simp
next
  case (AddPlayer k n t)
  then show ?thesis using assms sameRound_roundInv[OF addPlayer_sameRound] by simp
next
  case (RemovePlayer k)
  then show ?thesis using assms sameRound_roundInv[OF removePlayer_sameRound] by simp
next
  case (SetCurrentWord w)
  then show ?thesis using assms sameRound_roundInv[OF setCurrentWord_sameRound] by simp
next
  case (SetPlayerReady k b)
  then show ?thesis using assms sameRound_roundInv[OF setPlayerReady_sameRound] by simp
qed

lemma game_calls_roundInv: "roundInv g \<Longrightarrow> roundInv (game_calls cs g)"
  by (induction cs arbitrary: g) (simp_all add: game_call_roundInv)

text \<open>
  Claim C4 (as amended). In every state reachable from the constructor by the public
  operations the round number is at most the maximum plus one, and whenever it exceeds the
  maximum the game is finished.
\<close>

theorem reachable_round_bound:
  assumes "Game_new gid gname mt mp = Inr g0"
  shows "g_currentRound (game_calls cs g0) \<le> g_maxRounds (game_calls cs g0) + 1 \<and>
         (g_maxRounds (game_calls cs g0) < g_currentRound (game_calls cs g0) \<longrightarrow>
            g_gameState (game_calls cs g0) = Finished)"
proof -
  from assms have "roundInv g0"
    by (auto simp: Game_new_def roundInv_def split: if_splits)
  then have "roundInv (game_calls cs g0)" by (rule game_calls_roundInv)
  then show ?thesis by (auto simp: roundInv_def)
qed

lemma Game_new_pictionaryNight: "Game_new ''id-1'' ''Pictionary Night'' 4 6 = Inr pictionaryNight"
  by (simp add: Game_new_def pictionaryNight_def)

lemma eleven_rounds:
  "g_currentRound (game_calls (setUp @ StartGame # replicate 10 NextRound) pictionaryNight) = 11 \<and>
   g_maxRounds (game_calls (setUp @ StartGame # replicate 10 NextRound) pictionaryNight) = 10 \<and>
   g_gameState (game_calls (setUp @ StartGame # replicate 10 NextRound) pictionaryNight) = Finished"
  by code_simp

theorem reachable_round_bound_witness:
  "Game_new ''id-1'' ''Pictionary Night'' 4 6 = Inr pictionaryNight \<and>
   g_currentRound (game_calls (setUp @ StartGame # replicate 10 NextRound) pictionaryNight) = 11 \<and>
   g_maxRounds (game_calls (setUp @ StartGame # replicate 10 NextRound) pictionaryNight) = 10 \<and>
   g_gameState (game_calls (setUp @ StartGame # replicate 10 NextRound) pictionaryNight) = Finished"
  using reachable_round_bound[OF Game_new_pictionaryNight,
      of "setUp @ StartGame # replicate 10 NextRound"]
    Game_new_pictionaryNight eleven_rounds
  by simp

text \<open>Ten calls of \<^verbatim>\<open>nextRound()\<close> after \<^verbatim>\<open>startGame()\<close> leave the round
  at 11, above the maximum of 10: the increment is not undone when the game is finished.\<close>

theorem round_exceeds_maxRounds:
  "Game_new ''id-1'' ''Pictionary Night'' 4 6 = Inr pictionaryNight \<and>
   g_maxRounds (game_calls (setUp @ StartGame # replicate 10 NextRound) pictionaryNight) <
   g_currentRound (game_calls (setUp @ StartGame # replicate 10 NextRound) pictionaryNight)"
  using Game_new_pictionaryNight eleven_rounds by simp


definition startedGame :: Game where
  "startedGame = snd (Game_startGame readyGame)"

definition roundTen :: Game where
  "roundTen = snd (nextRounds 9 startedGame)"



lemma example_games_rounds:
  "g_gameState pictionaryNight \<noteq> Playing \<and>
   Game_startGame readyGame = (Inr (), startedGame) \<and> g_maxRounds readyGame = 10 \<and>
   g_gameState startedGame = Playing \<and> g_currentRound startedGame + 1 \<le> g_maxRounds startedGame \<and>
   g_currentRound startedGame = 1 \<and> roundRobinNext startedGame = Some 1 \<and>
   g_gameState roundTen = Playing \<and> g_maxRounds roundTen < g_currentRound roundTen + 1 \<and>
   g_currentRound roundTen = 10 \<and> g_currentDrawer roundTen = Some 0"
  by code_simp

theorem nextRound_outcomes_witness:
  "g_gameState pictionaryNight \<noteq> Playing \<and>
   Game_nextRound pictionaryNight = (Inl MustBePlaying, pictionaryNight) \<and>
   g_gameState startedGame = Playing \<and> g_currentRound startedGame + 1 \<le> g_maxRounds startedGame \<and>
   g_currentRound (snd (Game_nextRound startedGame)) = 2 \<and>
   g_currentDrawer (snd (Game_nextRound startedGame)) = Some 1 \<and>
   g_gameState roundTen = Playing \<and> g_maxRounds roundTen < g_currentRound roundTen + 1 \<and>
   g_gameState (snd (Game_nextRound roundTen)) = Finished \<and>
   g_currentRound (snd (Game_nextRound roundTen)) = 11 \<and>
   g_currentDrawer (snd (Game_nextRound roundTen)) = None \<and>
   Game_startGame readyGame = (Inr (), startedGame) \<and> g_maxRounds readyGame = 10 \<and>
   (\<exists>g10 g11. nextRounds 9 startedGame = (Inr (), g10) \<and>
      g_currentRound g10 = 10 \<and> g_gameState g10 = Playing \<and>
      Game_nextRound g10 = (Inr (), g11) \<and>
      g_gameState g11 = Finished \<and> g_currentDrawer g11 = None)"
proof -
  note ex = example_games_rounds
  have waiting: "Game_nextRound pictionaryNight = (Inl MustBePlaying, pictionaryNight)"
    using nextRound_outcomes[of pictionaryNight] ex by blast
  have second: "g_currentRound (snd (Game_nextRound startedGame)) = 2 \<and>
      g_currentDrawer (snd (Game_nextRound startedGame)) = Some 1"
    using nextRound_outcomes[of startedGame] ex by simp
  have last: "g_gameState (snd (Game_nextRound roundTen)) = Finished \<and>
      g_currentRound (snd (Game_nextRound roundTen)) = 11 \<and>
      g_currentDrawer (snd (Game_nextRound roundTen)) = None"
    using nextRound_outcomes[of roundTen] ex by simp
  have scenario: "\<exists>g10 g11. nextRounds 9 startedGame = (Inr (), g10) \<and>
      g_currentRound g10 = 10 \<and> g_gameState g10 = Playing \<and>
      Game_nextRound g10 = (Inr (), g11) \<and>
      g_gameState g11 = Finished \<and> g_currentDrawer g11 = None"
    using nextRound_outcomes[of readyGame] ex by blast
  show ?thesis using ex waiting second last scenario by blast
qed

section \<open>Game: removing a team, adding a player\<close>

text \<open>The ids of the players in a team's collection, read from the Player objects as
  \<^verbatim>\<open>removeTeam\<close> does (\<^verbatim>\<open>player.id\<close>).\<close>

definition memberIds :: "store \<Rightarrow> Team \<Rightarrow> string set" where
  "memberIds st t = set (map (\<lambda>r. p_id (st ! r)) (Map_values (t_players t)))"

lemma Map_has_get: "Map_has m k = (Map_get m k \<noteq> None)"
  by (simp add: Map_has_def Map_get_def map_of_eq_None_iff)

lemma deletePlayers_filter:
  "deletePlayers st rs m = filter (\<lambda>e. fst e \<notin> set (map (\<lambda>r. p_id (st ! r)) rs)) m"
proof (induction rs arbitrary: m)
  case Nil
  then show ?case by simp
next
  case (Cons r rs)
  have "deletePlayers st (r # rs) m =
      filter (\<lambda>e. fst e \<notin> set (map (\<lambda>r. p_id (st ! r)) rs)) (filter (\<lambda>e. fst e \<noteq> p_id (st ! r)) m)"
    by (simp add: Cons.IH Map_delete_def)
  also have "\<dots> = filter (\<lambda>e. fst e \<notin> set (map (\<lambda>r. p_id (st ! r)) (r # rs))) m"
    by (auto intro: filter_cong)
  finally show ?case .
qed

lemma Map_get_filter:
  "Map_get (filter (\<lambda>e. P (fst e)) m) k = (if P k then Map_get m k else None)"
  by (induction m) (auto simp: Map_get_def)

text \<open>
  Claim C9. For a game that contains the team \<open>t\<close> under the id, \<^verbatim>\<open>removeTeam(id)\<close>
  removes from the game's player collection exactly the entries whose id is the id of a
  player in \<open>t\<close>'s collection, and removes \<open>t\<close> from the team collection; every other
  team, every other player entry and every Player object stay as they are.
  \<^verbatim>\<open>removeTeam\<close> of an absent id fails and changes nothing.
\<close>

theorem removeTeam_outcomes:
  "(\<not> Map_has (g_teams g) teamId \<longrightarrow> Game_removeTeam teamId g = (Inl TeamNotFound, g)) \<and>
   (\<forall>t. Map_get (g_teams g) teamId = Some t \<longrightarrow>
      (\<exists>g'. Game_removeTeam teamId g = (Inr (), g') \<and>
         g' = g\<lparr>g_players := filter (\<lambda>e. fst e \<notin> memberIds (g_store g) t) (g_players g),
                g_teams := filter (\<lambda>e. fst e \<noteq> teamId) (g_teams g)\<rparr> \<and>
         \<not> Map_has (g_teams g') teamId \<and>
         (\<forall>k. k \<noteq> teamId \<longrightarrow> Map_get (g_teams g') k = Map_get (g_teams g) k) \<and>
         (\<forall>k. Map_get (g_players g') k =
                (if k \<in> memberIds (g_store g) t then None else Map_get (g_players g) k)) \<and>
         g_store g' = g_store g))"
proof -
  have absent: "\<not> Map_has (g_teams g) teamId \<Longrightarrow> Game_removeTeam teamId g = (Inl TeamNotFound, g)"
    by (simp add: Map_has_get Game_removeTeam_def)
  have present: "\<exists>g'. Game_removeTeam teamId g = (Inr (), g') \<and>
         g' = g\<lparr>g_players := filter (\<lambda>e. fst e \<notin> memberIds (g_store g) t) (g_players g),
                g_teams := filter (\<lambda>e. fst e \<noteq> teamId) (g_teams g)\<rparr> \<and>
         \<not> Map_has (g_teams g') teamId \<and>
         (\<forall>k. k \<noteq> teamId \<longrightarrow> Map_get (g_teams g') k = Map_get (g_teams g) k) \<and>
         (\<forall>k. Map_get (g_players g') k =
                (if k \<in> memberIds (g_store g) t then None else Map_get (g_players g) k)) \<and>
         g_store g' = g_store g"
    if t: "Map_get (g_teams g) teamId = Some t" for t
  proof -
    let ?g' = "g\<lparr>g_players := filter (\<lambda>e. fst e \<notin> memberIds (g_store g) t) (g_players g),
                  g_teams := filter (\<lambda>e. fst e \<noteq> teamId) (g_teams g)\<rparr>"
    have call: "Game_removeTeam teamId g = (Inr (), ?g')"
      using t by (simp add: Game_removeTeam_def deletePlayers_filter memberIds_def Map_delete_def)
    have gone: "\<not> Map_has (g_teams ?g') teamId"
      by (auto simp: Map_has_def)
    have others: "k \<noteq> teamId \<Longrightarrow> Map_get (g_teams ?g') k = Map_get (g_teams g) k" for k
      using Map_get_filter[of "\<lambda>k. k \<noteq> teamId" "g_teams g" k] by simp
    have players: "Map_get (g_players ?g') k =
        (if k \<in> memberIds (g_store g) t then None else Map_get (g_players g) k)" for k
      using Map_get_filter[of "\<lambda>k. k \<notin> memberIds (g_store g) t" "g_players g" k] by simp
    show ?thesis using call gone others players by simp
  qed
  show ?thesis using absent present by blast
qed

lemma example_removeTeam:
  "\<not> Map_has (g_teams readyGame) ''green'' \<and>
   Map_get (g_teams readyGame) ''red'' =
     Some \<lparr>t_id = ''red'', t_name = ''Red'', t_players = [(''a'', 0), (''b'', 1)],
           t_score = 0, t_color = ''#FF6B6B'', t_isActive = True\<rparr> \<and>
   g_players (snd (Game_removeTeam ''red'' readyGame)) = [(''c'', 2)] \<and>
   map fst (g_teams (snd (Game_removeTeam ''red'' readyGame))) = [''blue'']"
  by code_simp

theorem removeTeam_outcomes_witness:
  "\<not> Map_has (g_teams readyGame) ''green'' \<and>
   Game_removeTeam ''green'' readyGame = (Inl TeamNotFound, readyGame) \<and>
   Map_get (g_teams readyGame) ''red'' =
     Some \<lparr>t_id = ''red'', t_name = ''Red'', t_players = [(''a'', 0), (''b'', 1)],
           t_score = 0, t_color = ''#FF6B6B'', t_isActive = True\<rparr> \<and>
   fst (Game_removeTeam ''red'' readyGame) = Inr () \<and>
   \<not> Map_has (g_teams (snd (Game_removeTeam ''red'' readyGame))) ''red'' \<and>
   Map_get (g_teams (snd (Game_removeTeam ''red'' readyGame))) ''blue'' =
     Map_get (g_teams readyGame) ''blue'' \<and>
   g_store (snd (Game_removeTeam ''red'' readyGame)) = g_store readyGame \<and>
   g_players (snd (Game_removeTeam ''red'' readyGame)) = [(''c'', 2)]"
proof -
  note ex = example_removeTeam
  have absent: "Game_removeTeam ''green'' readyGame = (Inl TeamNotFound, readyGame)"
    using removeTeam_outcomes[of readyGame "''green''"] ex by blast
  have present: "fst (Game_removeTeam ''red'' readyGame) = Inr () \<and>
   \<not> Map_has (g_teams (snd (Game_removeTeam ''red'' readyGame))) ''red'' \<and>
   Map_get (g_teams (snd (Game_removeTeam ''red'' readyGame))) ''blue'' =
     Map_get (g_teams readyGame) ''blue'' \<and>
   g_store (snd (Game_removeTeam ''red'' readyGame)) = g_store readyGame"
    using removeTeam_outcomes[of readyGame "''red''"] ex by auto
  show ?thesis using ex absent present by blast
qed

text \<open>Every reference in a team's collection points into the store (a reference of the
  source always points to an object), and every member of a team is a player of the game.
  Both hold in every state reachable by the operations of the game
  (\<open>reachable_teamRefsAllocated\<close> and \<open>reachable_teamMembersRegistered\<close> below).\<close>

definition teamRefsAllocated :: "Game \<Rightarrow> bool" where
  "teamRefsAllocated g =
     list_all (\<lambda>t. list_all (\<lambda>r. r < length (g_store g)) (Map_values (t_players t)))
       (Map_values (g_teams g))"

definition teamMembersRegistered :: "Game \<Rightarrow> bool" where
  "teamMembersRegistered g =
     list_all (\<lambda>t. list_all (\<lambda>k. Map_has (g_players g) k) (map fst (t_players t)))
       (Map_values (g_teams g))"

lemma Map_set_absent: "\<not> Map_has m k \<Longrightarrow> Map_set m k v = m @ [(k, v)]"
  by (induction m) (auto simp: Map_has_def)

lemma Map_get_appended: "\<not> Map_has m k \<Longrightarrow> Map_get (m @ [(k, v)]) k = Some v"
  by (induction m) (auto simp: Map_has_def Map_get_def)

text \<open>
  Claim C10 (as amended). For a team id \<open>t\<close> that is not a key of the game's team
  collection, \<^verbatim>\<open>addPlayer(id, name, t)\<close> with a fresh non-empty id and a non-empty name
  succeeds: the new Player is stored in the game's player collection with its team
  reference set to \<open>t\<close>, which still names no team; the teams are unchanged and no
  team's collection holds the new player.
\<close>

theorem addPlayer_keeps_dangling_team:
  assumes fresh: "\<not> Map_has (g_players g) playerId"
    and named: "playerId \<noteq> [] \<and> playerName \<noteq> []"
    and absent: "\<not> Map_has (g_teams g) t"
    and alloc: "teamRefsAllocated g"
  shows "\<exists>r g'. Game_addPlayer playerId playerName (Some t) g = (Inr r, g') \<and>
           r = length (g_store g) \<and>
           g' = g\<lparr>g_store := g_store g @
                     [\<lparr>p_id = playerId, p_name = playerName, p_teamId = Some t, p_score = 0,
                       p_isDrawing = False, p_isReady = False\<rparr>],
                  g_players := g_players g @ [(playerId, r)]\<rparr> \<and>
           Map_get (g_players g') playerId = Some r \<and>
           p_teamId (g_store g' ! r) = Some t \<and>
           \<not> Map_has (g_teams g') t \<and>
           g_teams g' = g_teams g \<and>
           (\<forall>tm \<in> set (Map_values (g_teams g')). r \<notin> set (Map_values (t_players tm))) \<and>
           (teamMembersRegistered g \<longrightarrow>
              (\<forall>tm \<in> set (Map_values (g_teams g')). \<not> Map_has (t_players tm) playerId))"
proof -
  let ?r = "length (g_store g)"
  let ?g' = "g\<lparr>g_store := g_store g @
                     [\<lparr>p_id = playerId, p_name = playerName, p_teamId = Some t, p_score = 0,
                       p_isDrawing = False, p_isReady = False\<rparr>],
                g_players := g_players g @ [(playerId, ?r)]\<rparr>"
  have call: "Game_addPlayer playerId playerName (Some t) g = (Inr ?r, ?g')"
    using fresh named absent
    by (simp add: Game_addPlayer_def Player_new_def Let_def Map_set_absent)
  have stored: "Map_get (g_players ?g') playerId = Some ?r"
    using fresh by (simp add: Map_get_appended)
  have unheld: "\<forall>tm \<in> set (Map_values (g_teams ?g')). ?r \<notin> set (Map_values (t_players tm))"
    using alloc by (auto simp: teamRefsAllocated_def list_all_iff)
  have unlisted: "\<forall>tm \<in> set (Map_values (g_teams ?g')). \<not> Map_has (t_players tm) playerId"
    if "teamMembersRegistered g"
    using that fresh by (auto simp: teamMembersRegistered_def list_all_iff Map_has_def)
  show ?thesis using call stored unheld unlisted absent by simp
qed

lemma example_addPlayer:
  "\<not> Map_has (g_players readyGame) ''d'' \<and> ''d'' \<noteq> [] \<and> ''Dee'' \<noteq> [] \<and>
   \<not> Map_has (g_teams readyGame) ''green'' \<and> teamRefsAllocated readyGame \<and>
   teamMembersRegistered readyGame \<and> length (g_store readyGame) = 3"
  by code_simp

theorem addPlayer_keeps_dangling_team_witness:
  "\<not> Map_has (g_players readyGame) ''d'' \<and> ''d'' \<noteq> [] \<and> ''Dee'' \<noteq> [] \<and>
   \<not> Map_has (g_teams readyGame) ''green'' \<and> teamRefsAllocated readyGame \<and>
   fst (Game_addPlayer ''d'' ''Dee'' (Some ''green'') readyGame) = Inr 3 \<and>
   Map_get (g_players (snd (Game_addPlayer ''d'' ''Dee'' (Some ''green'') readyGame))) ''d'' = Some 3 \<and>
   p_teamId (g_store (snd (Game_addPlayer ''d'' ''Dee'' (Some ''green'') readyGame)) ! 3) =
     Some ''green'' \<and>
   \<not> Map_has (g_teams (snd (Game_addPlayer ''d'' ''Dee'' (Some ''green'') readyGame))) ''green'' \<and>
   g_teams (snd (Game_addPlayer ''d'' ''Dee'' (Some ''green'') readyGame)) = g_teams readyGame \<and>
   list_all (\<lambda>tm. 3 \<notin> set (Map_values (t_players tm)))
     (Map_values (g_teams (snd (Game_addPlayer ''d'' ''Dee'' (Some ''green'') readyGame)))) \<and>
   teamMembersRegistered readyGame \<and>
   list_all (\<lambda>tm. \<not> Map_has (t_players tm) ''d'')
     (Map_values (g_teams (snd (Game_addPlayer ''d'' ''Dee'' (Some ''green'') readyGame))))"
proof -
  note ex = example_addPlayer
  have fresh: "\<not> Map_has (g_players readyGame) ''d''"
    and named: "''d'' \<noteq> [] \<and> ''Dee'' \<noteq> []"
    and absent: "\<not> Map_has (g_teams readyGame) ''green''"
    and alloc: "teamRefsAllocated readyGame"
    using ex by simp_all
  from addPlayer_keeps_dangling_team[OF fresh named absent alloc]
  obtain r g' where
    "Game_addPlayer ''d'' ''Dee'' (Some ''green'') readyGame = (Inr r, g')"
    "r = length (g_store readyGame)"
    "Map_get (g_players g') ''d'' = Some r"
    "p_teamId (g_store g' ! r) = Some ''green''"
    "\<not> Map_has (g_teams g') ''green''"
    "g_teams g' = g_teams readyGame"
    "\<forall>tm \<in> set (Map_values (g_teams g')). r \<notin> set (Map_values (t_players tm))"
    "teamMembersRegistered readyGame \<longrightarrow>
       (\<forall>tm \<in> set (Map_values (g_teams g')). \<not> Map_has (t_players tm) ''d'')"
    by blast
  then show ?thesis using ex by (simp add: list_all_iff)
qed

text \<open>With an empty name the call fails, for a fresh id and a team id that is not a key:
  the Entity constructor throws, and the game is unchanged.\<close>

theorem addPlayer_empty_name_rejected:
  "\<not> Map_has (g_players readyGame) ''d'' \<and> \<not> Map_has (g_teams readyGame) ''green'' \<and>
   Game_addPlayer ''d'' [] (Some ''green'') readyGame = (Inl EntityRequiresIdAndName, readyGame)"
  by code_simp

section \<open>References stay inside the store\<close>

text \<open>All references held by the game's map and by the teams are indices of the store, in
  every state reachable from the constructor.\<close>

definition refsAllocated :: "Game \<Rightarrow> bool" where
  "refsAllocated g =
     (list_all (\<lambda>r. r < length (g_store g)) (Map_values (g_players g)) \<and> teamRefsAllocated g)"

lemma refsAllocated_iff:
  "refsAllocated g =
     ((\<forall>r \<in> set (Map_values (g_players g)). r < length (g_store g)) \<and>
      (\<forall>t \<in> set (Map_values (g_teams g)). \<forall>r \<in> set (Map_values (t_players t)).
          r < length (g_store g)))"
  by (simp add: refsAllocated_def teamRefsAllocated_def list_all_iff)

lemma values_Map_set: "set (Map_values (Map_set m k v)) \<subseteq> insert v (set (Map_values m))"
  by (induction m) (auto simp: Map_values_def)

lemma values_Map_delete: "set (Map_values (Map_delete m k)) \<subseteq> set (Map_values m)"
  by (auto simp: Map_values_def Map_delete_def)

lemma values_deletePlayers: "set (Map_values (deletePlayers st rs m)) \<subseteq> set (Map_values m)"
  by (auto simp: deletePlayers_filter Map_values_def)

lemma Map_get_value: "Map_get m k = Some v \<Longrightarrow> v \<in> set (Map_values m)"
  by (auto simp: Map_get_def Map_values_def dest: map_of_SomeD intro: rev_image_eqI)

lemma length_withDrawer [simp]: "length (withDrawer d st) = length st"
  by (simp add: withDrawer_def split: option.splits)

lemma selectNextDrawer_refsAllocated:
  "refsAllocated g \<Longrightarrow> refsAllocated (Game_selectNextDrawer g)"
  by (simp add: selectNextDrawer_frame refsAllocated_iff)

lemma startGame_refsAllocated: "refsAllocated g \<Longrightarrow> refsAllocated (snd (Game_startGame g))"
proof -
  assume inv: "refsAllocated g"
  then have "refsAllocated (g\<lparr>g_gameState := Playing, g_currentRound := 1\<rparr>)"
    by (simp add: refsAllocated_iff)
  then show ?thesis using inv
    by (simp add: Game_startGame_def selectNextDrawer_refsAllocated)
qed

lemma nextRound_refsAllocated: "refsAllocated g \<Longrightarrow> refsAllocated (snd (Game_nextRound g))"
proof -
  assume inv: "refsAllocated g"
  then have "refsAllocated (g\<lparr>g_currentRound := g_currentRound g + 1\<rparr>)"
    and "refsAllocated (Game_endGame (g\<lparr>g_currentRound := g_currentRound g + 1\<rparr>))"
    by (simp_all add: refsAllocated_iff Game_endGame_def)
  then show ?thesis using inv
    by (simp add: Game_nextRound_def Let_def selectNextDrawer_refsAllocated)
qed

lemma createTeam_refsAllocated:
  assumes "refsAllocated g"
  shows "refsAllocated (snd (Game_createTeam k n c rnd g))"
proof (cases "Team_new k n c rnd")
  case (Inl e)
  then show ?thesis using assms by (simp add: Game_createTeam_def)
next
  case (Inr team)
  then have empty: "Map_values (t_players team) = []"
    by (auto simp: Team_new_def Map_values_def split: if_splits)
  have "r < length (g_store g)"
    if t: "t \<in> set (Map_values (Map_set (g_teams g) k team))"
      and r: "r \<in> set (Map_values (t_players t))" for t r
  proof -
    from t have "t = team \<or> t \<in> set (Map_values (g_teams g))"
      using values_Map_set[of "g_teams g" k team] by auto
    then show ?thesis
    proof
      assume "t = team"
      then show ?thesis using r empty by simp
    next
      assume "t \<in> set (Map_values (g_teams g))"
      then show ?thesis using assms r unfolding refsAllocated_iff by blast
    qed
  qed
  then have "refsAllocated (g\<lparr>g_teams := Map_set (g_teams g) k team\<rparr>)"
    using assms unfolding refsAllocated_iff by simp
  then show ?thesis using assms Inr by (simp add: Game_createTeam_def)
qed

lemma refsAllocatedI:
  assumes "\<And>r. r \<in> set (Map_values (g_players g)) \<Longrightarrow> r < length (g_store g)"
    and "\<And>t r. t \<in> set (Map_values (g_teams g)) \<Longrightarrow> r \<in> set (Map_values (t_players t)) \<Longrightarrow>
           r < length (g_store g)"
  shows "refsAllocated g"
  unfolding refsAllocated_iff using assms by blast

lemma refsAllocated_player:
  "refsAllocated g \<Longrightarrow> r \<in> set (Map_values (g_players g)) \<Longrightarrow> r < length (g_store g)"
  unfolding refsAllocated_iff by blast

lemma refsAllocated_member:
  "refsAllocated g \<Longrightarrow> t \<in> set (Map_values (g_teams g)) \<Longrightarrow>
   r \<in> set (Map_values (t_players t)) \<Longrightarrow> r < length (g_store g)"
  unfolding refsAllocated_iff by blast

lemma removeTeam_refsAllocated:
  assumes inv: "refsAllocated g"
  shows "refsAllocated (snd (Game_removeTeam k g))"
proof (cases "Map_get (g_teams g) k")
  case None
  then show ?thesis using inv by (simp add: Game_removeTeam_def)
next
  case (Some team)
  let ?ps = "deletePlayers (g_store g) (Map_values (t_players team)) (g_players g)"
  let ?ts = "Map_delete (g_teams g) k"
  have "refsAllocated (g\<lparr>g_players := ?ps, g_teams := ?ts\<rparr>)"
  proof (rule refsAllocatedI)
    fix r
    assume "r \<in> set (Map_values (g_players (g\<lparr>g_players := ?ps, g_teams := ?ts\<rparr>)))"
    then have "r \<in> set (Map_values (g_players g))"
      using values_deletePlayers[of "g_store g" "Map_values (t_players team)" "g_players g"]
      by auto
    then show "r < length (g_store (g\<lparr>g_players := ?ps, g_teams := ?ts\<rparr>))"
      using refsAllocated_player[OF inv] by simp
  next
    fix t r
    assume "t \<in> set (Map_values (g_teams (g\<lparr>g_players := ?ps, g_teams := ?ts\<rparr>)))"
      and r: "r \<in> set (Map_values (t_players t))"
    then have "t \<in> set (Map_values (g_teams g))"
      using values_Map_delete[of "g_teams g" k] by auto
    then show "r < length (g_store (g\<lparr>g_players := ?ps, g_teams := ?ts\<rparr>))"
      using refsAllocated_member[OF inv _ r] by simp
  qed
  then show ?thesis using Some by (simp add: Game_removeTeam_def)
qed

lemma Team_addPlayer_effect:
  assumes "Team_addPlayer r st t = (res, st', t')"
  shows "length st' = length st \<and>
         set (Map_values (t_players t')) \<subseteq> insert r (set (Map_values (t_players t)))"
  using assms values_Map_set[of "t_players t" "p_id (st ! r)" r]
  by (auto simp: Team_addPlayer_def Player_joinTeam_def Let_def split: if_splits)

lemma Team_removePlayer_effect:
  assumes "Team_removePlayer k st t = (res, st', t')"
  shows "length st' = length st \<and>
         set (Map_values (t_players t')) \<subseteq> set (Map_values (t_players t))"
  using assms values_Map_delete[of "t_players t" k]
  by (auto simp: Team_removePlayer_def split: option.splits)

lemma refsAllocated_new_player:
  assumes inv: "refsAllocated g"
  shows "refsAllocated (g\<lparr>g_store := g_store g @ [p],
                          g_players := Map_set (g_players g) k (length (g_store g))\<rparr>)"
    (is "refsAllocated ?g1")
proof (rule refsAllocatedI)
  fix r
  assume "r \<in> set (Map_values (g_players ?g1))"
  then have "r = length (g_store g) \<or> r \<in> set (Map_values (g_players g))"
    using values_Map_set[of "g_players g" k "length (g_store g)"] by auto
  then show "r < length (g_store ?g1)"
    using refsAllocated_player[OF inv, of r] by auto
next
  fix t r
  assume "t \<in> set (Map_values (g_teams ?g1))" and "r \<in> set (Map_values (t_players t))"
  then show "r < length (g_store ?g1)"
    using refsAllocated_member[OF inv, of t r] by simp
qed

lemma refsAllocated_team_update:
  assumes inv: "refsAllocated g" and len: "length st' = length (g_store g)"
    and members: "\<And>r. r \<in> set (Map_values (t_players team')) \<Longrightarrow> r < length (g_store g)"
  shows "refsAllocated (g\<lparr>g_store := st', g_teams := Map_set (g_teams g) tid team'\<rparr>)"
    (is "refsAllocated ?g2")
proof (rule refsAllocatedI)
  fix r
  assume "r \<in> set (Map_values (g_players ?g2))"
  then show "r < length (g_store ?g2)"
    using refsAllocated_player[OF inv, of r] len by simp
next
  fix t r
  assume "t \<in> set (Map_values (g_teams ?g2))" and r: "r \<in> set (Map_values (t_players t))"
  then have "t = team' \<or> t \<in> set (Map_values (g_teams g))"
    using values_Map_set[of "g_teams g" tid team'] by auto
  then show "r < length (g_store ?g2)"
    using refsAllocated_member[OF inv, of t r] members[of r] r len by auto
qed

lemma refsAllocated_delete_player:
  assumes inv: "refsAllocated g"
  shows "refsAllocated (g\<lparr>g_players := Map_delete (g_players g) k\<rparr>)" (is "refsAllocated ?g1")
proof (rule refsAllocatedI)
  fix r
  assume "r \<in> set (Map_values (g_players ?g1))"
  then have "r \<in> set (Map_values (g_players g))"
    using values_Map_delete[of "g_players g" k] by auto
  then show "r < length (g_store ?g1)" using refsAllocated_player[OF inv, of r] by simp
next
  fix t r
  assume "t \<in> set (Map_values (g_teams ?g1))" and "r \<in> set (Map_values (t_players t))"
  then show "r < length (g_store ?g1)" using refsAllocated_member[OF inv, of t r] by simp
qed

lemma addPlayer_refsAllocated:
  assumes inv: "refsAllocated g"
  shows "refsAllocated (snd (Game_addPlayer k n tid g))"
proof (cases "Map_has (g_players g) k")
  case True
  then show ?thesis using inv by (simp add: Game_addPlayer_def)
next
  case fresh: False
  show ?thesis
  proof (cases "Player_new k n tid")
    case (Inl e)
    then show ?thesis using inv fresh by (simp add: Game_addPlayer_def)
  next
    case (Inr p)
    let ?r = "length (g_store g)"
    let ?g1 = "g\<lparr>g_store := g_store g @ [p], g_players := Map_set (g_players g) k ?r\<rparr>"
    have g1: "refsAllocated ?g1" using inv by (rule refsAllocated_new_player)
    show ?thesis
    proof (cases "truthy tid \<and> Map_has (g_teams g) (the tid)")
      case False
      then show ?thesis using g1 fresh Inr by (auto simp: Game_addPlayer_def Let_def)
    next
      case True
      then obtain team where team: "Map_get (g_teams g) (the tid) = Some team"
        by (auto simp: Map_has_get)
      obtain res st' team' where call: "Team_addPlayer ?r (g_store ?g1) team = (res, st', team')"
        by (cases "Team_addPlayer ?r (g_store ?g1) team") auto
      let ?g2 = "?g1\<lparr>g_store := st', g_teams := Map_set (g_teams ?g1) (the tid) team'\<rparr>"
      have len: "length st' = length (g_store ?g1)"
        and sub: "set (Map_values (t_players team')) \<subseteq> insert ?r (set (Map_values (t_players team)))"
        using Team_addPlayer_effect[OF call] by simp_all
      have "team \<in> set (Map_values (g_teams ?g1))"
        using Map_get_value[OF team] by simp
      then have "r < length (g_store ?g1)" if "r \<in> set (Map_values (t_players team'))" for r
        using that sub refsAllocated_member[OF g1, of team r] by auto
      with g1 len have "refsAllocated ?g2" by (rule refsAllocated_team_update)
      moreover have "snd (Game_addPlayer k n tid g) = ?g2"
        using fresh Inr True team call
        by (simp add: Game_addPlayer_def Let_def split: sum.splits)
      ultimately show ?thesis by simp
    qed
  qed
qed

lemma removePlayer_refsAllocated:
  assumes inv: "refsAllocated g"
  shows "refsAllocated (snd (Game_removePlayer k g))"
proof (cases "Map_get (g_players g) k")
  case None
  then show ?thesis using inv by (simp add: Game_removePlayer_def)
next
  case (Some r)
  let ?tid = "the (p_teamId (g_store g ! r))"
  show ?thesis
  proof (cases "truthy (p_teamId (g_store g ! r)) \<and> Map_has (g_teams g) ?tid")
    case False
    then show ?thesis
      using Some refsAllocated_delete_player[OF inv, of k]
      by (auto simp: Game_removePlayer_def Let_def)
  next
    case True
    then obtain team where team: "Map_get (g_teams g) ?tid = Some team"
      by (auto simp: Map_has_get)
    obtain res st' team' where call: "Team_removePlayer k (g_store g) team = (res, st', team')"
      by (cases "Team_removePlayer k (g_store g) team") auto
    show ?thesis
    proof (cases res)
      case (Inl e)
      then show ?thesis using inv Some True team call
        by (simp add: Game_removePlayer_def Let_def)
    next
      case (Inr u)
      let ?g2 = "g\<lparr>g_store := st', g_teams := Map_set (g_teams g) ?tid team'\<rparr>"
      have len: "length st' = length (g_store g)"
        and sub: "set (Map_values (t_players team')) \<subseteq> set (Map_values (t_players team))"
        using Team_removePlayer_effect[OF call] by simp_all
      have "team \<in> set (Map_values (g_teams g))" using Map_get_value[OF team] .
      then have "r' < length (g_store g)" if "r' \<in> set (Map_values (t_players team'))" for r'
        using that sub refsAllocated_member[OF inv, of team r'] by auto
      with inv len have "refsAllocated ?g2" by (rule refsAllocated_team_update)
      then have "refsAllocated (?g2\<lparr>g_players := Map_delete (g_players ?g2) k\<rparr>)"
        by (rule refsAllocated_delete_player)
      moreover have "snd (Game_removePlayer k g) = ?g2\<lparr>g_players := Map_delete (g_players ?g2) k\<rparr>"
        using Some True team call Inr by (simp add: Game_removePlayer_def Let_def)
      ultimately show ?thesis by simp
    qed
  qed
qed

lemma setPlayerReady_refsAllocated:
  "refsAllocated g \<Longrightarrow> refsAllocated (Game_setPlayerReady k b g)"
  by (simp add: Game_setPlayerReady_def refsAllocated_iff split: option.splits)

lemma setCurrentWord_refsAllocated:
  "refsAllocated g \<Longrightarrow> refsAllocated (snd (Game_setCurrentWord w g))"
  by (simp add: Game_setCurrentWord_def refsAllocated_iff split: jsvalue.splits)

lemma game_call_refsAllocated:
  assumes "refsAllocated g"
  shows "refsAllocated (game_call c g)"
proof (cases c)
  case StartGame
  then show ?thesis using assms by (simp add: startGame_refsAllocated)
next
  case PauseGame
  then show ?thesis using assms by (simp add: refsAllocated_iff Game_pauseGame_def)
next
  case ResumeGame
  then show ?thesis using assms by (simp add: refsAllocated_iff Game_resumeGame_def)
next
  case EndGame
  then show ?thesis using assms by (simp add: refsAllocated_iff Game_endGame_def)
next
  case NextRound
  then show ?thesis using assms by (simp add: nextRound_refsAllocated)
next
  case (CreateTeam k n col rnd)
  then show ?thesis using assms by (simp add: createTeam_refsAllocated)
next
  case (RemoveTeam k)
  then show ?thesis using assms by (simp add: removeTeam_refsAllocated)
next
  case (AddPlayer k n t)
  then show ?thesis using assms by (simp add: addPlayer_refsAllocated)
next
  case (RemovePlayer k)
  then show ?thesis using assms by (simp add: removePlayer_refsAllocated)
next
  case (SetCurrentWord w)
  then show ?thesis using assms by (simp add: setCurrentWord_refsAllocated)
next
  case (SetPlayerReady k b)
  then show ?thesis using assms by (simp add: setPlayerReady_refsAllocated)
qed

lemma game_calls_refsAllocated: "refsAllocated g \<Longrightarrow> refsAllocated (game_calls cs g)"
  by (induction cs arbitrary: g) (simp_all add: game_call_refsAllocated)

lemma reachable_teamRefsAllocated:
  assumes "Game_new gid gname mt mp = Inr g0"
  shows "teamRefsAllocated (game_calls cs g0)"
proof -
  from assms have "refsAllocated g0"
    by (auto simp: Game_new_def refsAllocated_iff Map_values_def split: if_splits)
  then have "refsAllocated (game_calls cs g0)" by (rule game_calls_refsAllocated)
  then show ?thesis by (simp add: refsAllocated_def)
qed

section \<open>No game starts without ready players\<close>

text \<open>Players are created not ready, and \<^verbatim>\<open>startGame()\<close> needs every team ready: a
  sequence of calls that never sets a ready flag to true leaves the game in round 0 and
  never playing. The round counter moves only once the players have been marked ready.\<close>

definition nobodyReady :: "Game \<Rightarrow> bool" where
  "nobodyReady g =
     (refsAllocated g \<and> list_all (\<lambda>p. \<not> p_isReady p) (g_store g) \<and>
      g_currentRound g = 0 \<and> (g_gameState g = Waiting \<or> g_gameState g = Finished))"

fun setsReady :: "game_op \<Rightarrow> bool" where
  "setsReady (SetPlayerReady k b) = b"
| "setsReady c = False"

lemma unready_update:
  "list_all (\<lambda>p. \<not> p_isReady p) st \<Longrightarrow> \<not> p_isReady p \<Longrightarrow>
   list_all (\<lambda>p. \<not> p_isReady p) (st[r := p])"
  using set_update_subset_insert[of st r p] by (auto simp: list_all_iff)

lemma Team_addPlayer_unready:
  assumes "Team_addPlayer r st t = (res, st', t')" and "list_all (\<lambda>p. \<not> p_isReady p) st"
    and "r < length st"
  shows "list_all (\<lambda>p. \<not> p_isReady p) st'"
proof -
  have "\<not> p_isReady (st ! r)" using assms(2,3) by (simp add: list_all_length)
  then show ?thesis using assms(1,2)
    by (auto simp: Team_addPlayer_def Player_joinTeam_def Let_def unready_update split: if_splits)
qed

lemma Team_removePlayer_unready:
  assumes "Team_removePlayer k st t = (res, st', t')" and "list_all (\<lambda>p. \<not> p_isReady p) st"
    and "\<And>r. r \<in> set (Map_values (t_players t)) \<Longrightarrow> r < length st"
  shows "list_all (\<lambda>p. \<not> p_isReady p) st'"
proof (cases "Map_get (t_players t) k")
  case None
  then show ?thesis using assms(1,2) by (simp add: Team_removePlayer_def)
next
  case (Some r)
  then have "r < length st" using assms(3) Map_get_value by fastforce
  then have "\<not> p_isReady (Player_leaveTeam (st ! r))"
    using assms(2) by (simp add: list_all_length Player_leaveTeam_def)
  then show ?thesis using assms(1,2) Some
    by (auto simp: Team_removePlayer_def unready_update)
qed

lemma unready_team_not_ready:
  assumes "list_all (\<lambda>p. \<not> p_isReady p) st"
    and "\<And>r. r \<in> set (Map_values (t_players t)) \<Longrightarrow> r < length st"
  shows "\<not> Team_isReady st t"
proof (cases "Map_values (t_players t)")
  case Nil
  then show ?thesis by (simp add: Team_isReady_def Map_size_def Map_values_def)
next
  case (Cons r rs)
  then have "r < length st" using assms(2) by simp
  then have "\<not> p_isReady (st ! r)" using assms(1) by (simp add: list_all_length)
  then show ?thesis using Cons by (simp add: Team_isReady_def)
qed

lemma nobodyReady_startGame:
  assumes "nobodyReady g"
  shows "snd (Game_startGame g) = g"
proof (cases "Map_values (g_teams g)")
  case Nil
  then show ?thesis by (simp add: Game_startGame_def Map_size_def Map_values_def)
next
  case (Cons t ts)
  have "\<not> Team_isReady (g_store g) t"
  proof (rule unready_team_not_ready)
    show "list_all (\<lambda>p. \<not> p_isReady p) (g_store g)" using assms by (simp add: nobodyReady_def)
  next
    fix r assume "r \<in> set (Map_values (t_players t))"
    moreover have "refsAllocated g" using assms by (simp add: nobodyReady_def)
    moreover have "t \<in> set (Map_values (g_teams g))" using Cons by simp
    ultimately show "r < length (g_store g)" using refsAllocated_member by blast
  qed
  then show ?thesis using Cons by (simp add: Game_startGame_def Game_allTeamsReady_def)
qed

lemma addPlayer_unready:
  assumes inv: "nobodyReady g"
  shows "list_all (\<lambda>p. \<not> p_isReady p) (g_store (snd (Game_addPlayer k n tid g)))"
proof -
  have st: "list_all (\<lambda>p. \<not> p_isReady p) (g_store g)" using inv by (simp add: nobodyReady_def)
  show ?thesis
  proof (cases "Map_has (g_players g) k")
    case True
    then show ?thesis using st by (simp add: Game_addPlayer_def)
  next
    case fresh: False
    show ?thesis
    proof (cases "Player_new k n tid")
      case (Inl e)
      then show ?thesis using st fresh by (simp add: Game_addPlayer_def)
    next
      case (Inr p)
      then have "\<not> p_isReady p" by (auto simp: Player_new_def split: if_splits)
      then have st1: "list_all (\<lambda>p. \<not> p_isReady p) (g_store g @ [p])" using st by simp
      show ?thesis
      proof (cases "truthy tid \<and> Map_has (g_teams g) (the tid)")
        case False
        then show ?thesis using st1 fresh Inr by (auto simp: Game_addPlayer_def Let_def)
      next
        case True
        then obtain team where team: "Map_get (g_teams g) (the tid) = Some team"
          by (auto simp: Map_has_get)
        obtain res st' team' where
          call: "Team_addPlayer (length (g_store g)) (g_store g @ [p]) team = (res, st', team')"
          by (cases "Team_addPlayer (length (g_store g)) (g_store g @ [p]) team") auto
        have "list_all (\<lambda>p. \<not> p_isReady p) st'"
          using Team_addPlayer_unready[OF call st1] by simp
        then show ?thesis using fresh Inr True team call
          by (simp add: Game_addPlayer_def Let_def split: sum.splits)
      qed
    qed
  qed
qed

lemma removePlayer_unready:
  assumes inv: "nobodyReady g"
  shows "list_all (\<lambda>p. \<not> p_isReady p) (g_store (snd (Game_removePlayer k g)))"
proof -
  have st: "list_all (\<lambda>p. \<not> p_isReady p) (g_store g)" and alloc: "refsAllocated g"
    using inv by (simp_all add: nobodyReady_def)
  show ?thesis
  proof (cases "Map_get (g_players g) k")
    case None
    then show ?thesis using st by (simp add: Game_removePlayer_def)
  next
    case (Some r)
    let ?tid = "the (p_teamId (g_store g ! r))"
    show ?thesis
    proof (cases "truthy (p_teamId (g_store g ! r)) \<and> Map_has (g_teams g) ?tid")
      case False
      then show ?thesis using st Some by (auto simp: Game_removePlayer_def Let_def)
    next
      case True
      then obtain team where team: "Map_get (g_teams g) ?tid = Some team"
        by (auto simp: Map_has_get)
      obtain res st' team' where call: "Team_removePlayer k (g_store g) team = (res, st', team')"
        by (cases "Team_removePlayer k (g_store g) team") auto
      have "team \<in> set (Map_values (g_teams g))" using Map_get_value[OF team] .
      then have "r' < length (g_store g)" if "r' \<in> set (Map_values (t_players team))" for r'
        using that refsAllocated_member[OF alloc] by blast
      then have "list_all (\<lambda>p. \<not> p_isReady p) st'"
        using Team_removePlayer_unready[OF call st] by blast
      then show ?thesis using st Some True team call
        by (cases res) (simp_all add: Game_removePlayer_def Let_def)
    qed
  qed
qed

lemma setPlayerReady_unready:
  assumes inv: "nobodyReady g"
  shows "list_all (\<lambda>p. \<not> p_isReady p) (g_store (Game_setPlayerReady k False g))"
proof -
  have st: "list_all (\<lambda>p. \<not> p_isReady p) (g_store g)" using inv by (simp add: nobodyReady_def)
  then show ?thesis
    by (auto simp: Game_setPlayerReady_def Player_setReady_def unready_update split: option.splits)
qed

lemma nobodyReady_sameRound:
  assumes "nobodyReady g" and "sameRound g' g" and "refsAllocated g'"
    and "list_all (\<lambda>p. \<not> p_isReady p) (g_store g')"
  shows "nobodyReady g'"
  using assms by (auto simp: nobodyReady_def sameRound_def)

lemma game_call_nobodyReady:
  assumes inv: "nobodyReady g" and quiet: "\<not> setsReady c"
  shows "nobodyReady (game_call c g)"
proof -
  have alloc: "refsAllocated (game_call c g)"
    using inv by (simp add: nobodyReady_def game_call_refsAllocated)
  have st: "list_all (\<lambda>p. \<not> p_isReady p) (g_store g)" using inv by (simp add: nobodyReady_def)
  show ?thesis
  proof (cases c)
    case StartGame
    then show ?thesis using inv by (simp add: nobodyReady_startGame)
  next
    case PauseGame
    then show ?thesis using inv by (auto simp: nobodyReady_def Game_pauseGame_def)
  next
    case ResumeGame
    then show ?thesis using inv by (auto simp: nobodyReady_def Game_resumeGame_def)
  next
    case EndGame
    then show ?thesis using inv alloc by (auto simp: nobodyReady_def Game_endGame_def)
  next
    case NextRound
    then show ?thesis using inv by (auto simp: nobodyReady_def Game_nextRound_def)
  next
    case (CreateTeam k n col rnd)
    have "g_store (snd (Game_createTeam k n col rnd g)) = g_store g"
      by (simp add: Game_createTeam_def split: sum.splits)
    then show ?thesis
      using CreateTeam alloc st nobodyReady_sameRound[OF inv createTeam_sameRound] by simp
  next
    case (RemoveTeam k)
    have "g_store (snd (Game_removeTeam k g)) = g_store g"
      by (simp add: Game_removeTeam_def split: option.splits)
    then show ?thesis
      using RemoveTeam alloc st nobodyReady_sameRound[OF inv removeTeam_sameRound] by simp
  next
    case (AddPlayer k n t)
    then show ?thesis
      using alloc addPlayer_unready[OF inv] nobodyReady_sameRound[OF inv addPlayer_sameRound]
      by simp
  next
    case (RemovePlayer k)
    then show ?thesis
      using alloc removePlayer_unready[OF inv]
        nobodyReady_sameRound[OF inv removePlayer_sameRound]
      by simp
  next
    case (SetCurrentWord w)
    have "g_store (snd (Game_setCurrentWord w g)) = g_store g"
      by (simp add: Game_setCurrentWord_def split: jsvalue.splits)
    then show ?thesis
      using SetCurrentWord alloc st nobodyReady_sameRound[OF inv setCurrentWord_sameRound] by simp
  next
    case (SetPlayerReady k b)
    then have "b = False" using quiet by simp
    then show ?thesis
      using SetPlayerReady alloc setPlayerReady_unready[OF inv]
        nobodyReady_sameRound[OF inv setPlayerReady_sameRound]
      by simp
  qed
qed

lemma never_started_without_ready_players:
  assumes "Game_new gid gname mt mp = Inr g0" and "list_all (\<lambda>c. \<not> setsReady c) cs"
  shows "g_currentRound (game_calls cs g0) = 0 \<and> g_gameState (game_calls cs g0) \<noteq> Playing"
proof -
  have step: "nobodyReady g \<Longrightarrow> list_all (\<lambda>c. \<not> setsReady c) cs \<Longrightarrow> nobodyReady (game_calls cs g)"
    for g
    by (induction cs arbitrary: g) (simp_all add: game_call_nobodyReady)
  from assms(1) have "nobodyReady g0"
    by (auto simp: Game_new_def nobodyReady_def refsAllocated_iff Map_values_def split: if_splits)
  then have "nobodyReady (game_calls cs g0)" using assms(2) by (rule step)
  then show ?thesis by (auto simp: nobodyReady_def)
qed

section \<open>Teams and players stay consistent\<close>

text \<open>
  The operations of the game keep its maps consistent: the keys of the player map are
  distinct and are the ids of the objects they refer to, no object is stored twice, team
  keys are distinct and non-empty, and every member of a team is an entry of the game's
  player map whose team reference is the key of that team. In particular every team member
  is a player of the game, in every state reachable from the constructor.
\<close>

definition playersOK :: "Game \<Rightarrow> bool" where
  "playersOK g =
     (distinct (map fst (g_players g)) \<and> distinct (map snd (g_players g)) \<and>
      (\<forall>e \<in> set (g_players g). snd e < length (g_store g) \<and> p_id (g_store g ! snd e) = fst e))"

definition teamOK :: "Game \<Rightarrow> string \<Rightarrow> Team \<Rightarrow> bool" where
  "teamOK g tk t =
     (tk \<noteq> [] \<and> t_id t = tk \<and>
      (\<forall>e \<in> set (t_players t). e \<in> set (g_players g) \<and> p_teamId (g_store g ! snd e) = Some tk))"

definition consistent :: "Game \<Rightarrow> bool" where
  "consistent g =
     (playersOK g \<and> distinct (map fst (g_teams g)) \<and>
      (\<forall>e \<in> set (g_teams g). teamOK g (fst e) (snd e)))"

lemma Map_set_present_keys: "Map_has m k \<Longrightarrow> map fst (Map_set m k v) = map fst m"
  by (induction m) (auto simp: Map_has_def)

lemma Map_set_entries: "set (Map_set m k v) \<subseteq> insert (k, v) (set m)"
  by (induction m) auto

lemma Map_set_present_entry: "Map_has m k \<Longrightarrow> (k, v) \<in> set (Map_set m k v)"
  by (induction m) (auto simp: Map_has_def)

lemma Map_set_distinct_entry:
  assumes "distinct (map fst m)" and "Map_has m k" and "(k', v') \<in> set (Map_set m k v)"
  shows "(k' = k \<and> v' = v) \<or> (k' \<noteq> k \<and> (k', v') \<in> set m)"
proof (cases "k' = k")
  case True
  have "distinct (map fst (Map_set m k v))" using assms(1,2) by (simp add: Map_set_present_keys)
  moreover have "(k, v) \<in> set (Map_set m k v)" using assms(2) by (rule Map_set_present_entry)
  ultimately have "v' = v" using assms(3) True by (meson eq_key_imp_eq_value)
  then show ?thesis using True by simp
next
  case False
  then show ?thesis using assms(3) Map_set_entries[of m k v] by auto
qed

lemma Map_get_entry: "Map_get m k = Some v \<Longrightarrow> (k, v) \<in> set m"
  by (simp add: Map_get_def map_of_SomeD)

lemma Map_get_distinct: "distinct (map fst m) \<Longrightarrow> (k, v) \<in> set m \<Longrightarrow> Map_get m k = Some v"
  by (simp add: Map_get_def)

lemma playersOK_same_ref:
  assumes "playersOK g" and "(k, r) \<in> set (g_players g)" and "(k, r') \<in> set (g_players g)"
  shows "r' = r"
  using assms by (meson eq_key_imp_eq_value playersOK_def)

lemma playersOK_same_key:
  assumes "playersOK g" and "(k, r) \<in> set (g_players g)" and "(k', r) \<in> set (g_players g)"
  shows "k' = k"
proof -
  have "p_id (g_store g ! r) = k" and "p_id (g_store g ! r) = k'"
    using assms by (auto simp: playersOK_def)
  then show ?thesis by simp
qed

text \<open>A store that differs only in flags that are neither the id nor the team reference.\<close>

definition sameIdentity :: "store \<Rightarrow> store \<Rightarrow> bool" where
  "sameIdentity st' st =
     (length st' = length st \<and>
      (\<forall>r < length st. p_id (st' ! r) = p_id (st ! r) \<and> p_teamId (st' ! r) = p_teamId (st ! r)))"

lemma consistent_sameIdentity:
  assumes "consistent g" and "sameIdentity st' (g_store g)"
  shows "consistent (g\<lparr>g_store := st'\<rparr>)"
proof -
  have p: "playersOK (g\<lparr>g_store := st'\<rparr>)"
    using assms by (auto simp: consistent_def playersOK_def sameIdentity_def)
  have "teamOK (g\<lparr>g_store := st'\<rparr>) (fst e) (snd e)" if e: "e \<in> set (g_teams g)" for e
  proof -
    have ok: "teamOK g (fst e) (snd e)" using assms(1) e by (simp add: consistent_def)
    have "p_teamId (st' ! snd m) = Some (fst e)" if m: "m \<in> set (t_players (snd e))" for m
    proof -
      have "m \<in> set (g_players g)" and t: "p_teamId (g_store g ! snd m) = Some (fst e)"
        using ok m by (auto simp: teamOK_def)
      then have "snd m < length (g_store g)" using assms(1) by (auto simp: consistent_def playersOK_def)
      then show ?thesis using assms(2) t by (simp add: sameIdentity_def)
    qed
    then show ?thesis using ok by (auto simp: teamOK_def)
  qed
  then show ?thesis using assms(1) p by (simp add: consistent_def)
qed

lemma sameIdentity_update:
  assumes "p_id p = p_id (st ! r)" and "p_teamId p = p_teamId (st ! r)"
  shows "sameIdentity (st[r := p]) st"
proof (cases "r < length st")
  case True
  then show ?thesis using assms by (auto simp: sameIdentity_def nth_list_update)
next
  case False
  then show ?thesis by (simp add: sameIdentity_def)
qed

lemma sameIdentity_withDrawer: "sameIdentity (withDrawer d st) st"
proof (cases d)
  case None
  then show ?thesis by (simp add: withDrawer_def sameIdentity_def)
next
  case (Some r)
  then show ?thesis using sameIdentity_update[of "(st ! r)\<lparr>p_isDrawing := True\<rparr>" st r]
    by (simp add: withDrawer_def)
qed

lemma consistent_cong:
  assumes "g_players g' = g_players g" and "g_teams g' = g_teams g" and "g_store g' = g_store g"
  shows "consistent g' = consistent g"
  using assms by (simp add: consistent_def playersOK_def teamOK_def)

lemma selectNextDrawer_consistent:
  assumes "consistent g"
  shows "consistent (Game_selectNextDrawer g)"
proof -
  have "consistent (g\<lparr>g_store := withDrawer (roundRobinNext g) (g_store g)\<rparr>)"
    using assms sameIdentity_withDrawer by (rule consistent_sameIdentity)
  moreover have "consistent (Game_selectNextDrawer g) =
      consistent (g\<lparr>g_store := withDrawer (roundRobinNext g) (g_store g)\<rparr>)"
    by (rule consistent_cong) (simp_all add: selectNextDrawer_frame)
  ultimately show ?thesis by simp
qed

lemma startGame_consistent: "consistent g \<Longrightarrow> consistent (snd (Game_startGame g))"
proof -
  assume inv: "consistent g"
  have "consistent (g\<lparr>g_gameState := Playing, g_currentRound := 1\<rparr>) = consistent g"
    by (rule consistent_cong) simp_all
  then show ?thesis using inv by (simp add: Game_startGame_def selectNextDrawer_consistent)
qed

lemma nextRound_consistent: "consistent g \<Longrightarrow> consistent (snd (Game_nextRound g))"
proof -
  assume inv: "consistent g"
  have "consistent (g\<lparr>g_currentRound := g_currentRound g + 1\<rparr>) = consistent g"
    by (rule consistent_cong) simp_all
  moreover have "consistent (Game_endGame (g\<lparr>g_currentRound := g_currentRound g + 1\<rparr>)) =
      consistent g"
    by (rule consistent_cong) (simp_all add: Game_endGame_def)
  ultimately show ?thesis using inv
    by (simp add: Game_nextRound_def Let_def selectNextDrawer_consistent)
qed

lemma setPlayerReady_consistent: "consistent g \<Longrightarrow> consistent (Game_setPlayerReady k b g)"
proof (cases "Map_get (g_players g) k")
  case None
  then show "consistent g \<Longrightarrow> ?thesis" by (simp add: Game_setPlayerReady_def)
next
  case (Some r)
  assume inv: "consistent g"
  have "sameIdentity ((g_store g)[r := Player_setReady b (g_store g ! r)]) (g_store g)"
    by (rule sameIdentity_update) (simp_all add: Player_setReady_def)
  then show ?thesis using Some consistent_sameIdentity[OF inv]
    by (simp add: Game_setPlayerReady_def)
qed

lemma createTeam_consistent:
  assumes inv: "consistent g"
  shows "consistent (snd (Game_createTeam k n c rnd g))"
proof (cases "Map_has (g_teams g) k \<or> int (Map_size (g_teams g)) \<ge> g_maxTeams g")
  case True
  then show ?thesis using inv by (auto simp: Game_createTeam_def)
next
  case False
  show ?thesis
  proof (cases "Team_new k n c rnd")
    case (Inl e)
    then show ?thesis using inv False by (simp add: Game_createTeam_def)
  next
    case (Inr team)
    then have team: "k \<noteq> []" "t_id team = k" "t_players team = []"
      by (auto simp: Team_new_def split: if_splits)
    have absent: "\<not> Map_has (g_teams g) k" using False by simp
    let ?g' = "g\<lparr>g_teams := g_teams g @ [(k, team)]\<rparr>"
    have "playersOK ?g'" using inv by (simp add: consistent_def playersOK_def)
    moreover have "distinct (map fst (g_teams ?g'))"
      using inv absent by (simp add: consistent_def Map_has_def)
    moreover have "teamOK ?g' (fst e) (snd e)" if "e \<in> set (g_teams ?g')" for e
      using that inv team by (auto simp: consistent_def teamOK_def)
    ultimately have "consistent ?g'" by (simp add: consistent_def)
    then show ?thesis using Inr False absent
      by (simp add: Game_createTeam_def Map_set_absent)
  qed
qed

lemma consistent_member:
  assumes "consistent g" and "(tk, t) \<in> set (g_teams g)" and "(k, r) \<in> set (t_players t)"
  shows "(k, r) \<in> set (g_players g) \<and> p_teamId (g_store g ! r) = Some tk \<and>
         p_id (g_store g ! r) = k \<and> r < length (g_store g) \<and> tk \<noteq> [] \<and> t_id t = tk"
proof -
  have "teamOK g tk t" using assms(1,2) by (auto simp: consistent_def)
  then have m: "(k, r) \<in> set (g_players g)" "p_teamId (g_store g ! r) = Some tk"
    "tk \<noteq> []" "t_id t = tk"
    using assms(3) by (auto simp: teamOK_def)
  moreover have "p_id (g_store g ! r) = k \<and> r < length (g_store g)"
    using assms(1) m(1) by (auto simp: consistent_def playersOK_def)
  ultimately show ?thesis by simp
qed

lemma consistent_one_team:
  assumes inv: "consistent g"
    and t1: "(tk1, t1) \<in> set (g_teams g)" and m1: "(k, r1) \<in> set (t_players t1)"
    and t2: "(tk2, t2) \<in> set (g_teams g)" and m2: "(k, r2) \<in> set (t_players t2)"
  shows "tk2 = tk1 \<and> r2 = r1"
proof -
  have a: "(k, r1) \<in> set (g_players g)" "p_teamId (g_store g ! r1) = Some tk1"
    using consistent_member[OF inv t1 m1] by simp_all
  have b: "(k, r2) \<in> set (g_players g)" "p_teamId (g_store g ! r2) = Some tk2"
    using consistent_member[OF inv t2 m2] by simp_all
  have "playersOK g" using inv by (simp add: consistent_def)
  then have "r2 = r1" using a(1) b(1) by (rule playersOK_same_ref)
  then show ?thesis using a(2) b(2) by simp
qed

lemma removeTeam_consistent:
  assumes inv: "consistent g"
  shows "consistent (snd (Game_removeTeam tk g))"
proof (cases "Map_get (g_teams g) tk")
  case None
  then show ?thesis using inv by (simp add: Game_removeTeam_def)
next
  case (Some team)
  then have team: "(tk, team) \<in> set (g_teams g)" by (rule Map_get_entry)
  let ?ps = "filter (\<lambda>e. fst e \<notin> memberIds (g_store g) team) (g_players g)"
  let ?ts = "filter (\<lambda>e. fst e \<noteq> tk) (g_teams g)"
  let ?g' = "g\<lparr>g_players := ?ps, g_teams := ?ts\<rparr>"
  have p: "playersOK ?g'"
    using inv by (auto simp: consistent_def playersOK_def distinct_map_filter)
  have d: "distinct (map fst (g_teams ?g'))"
    using inv by (simp add: consistent_def distinct_map_filter)
  have "teamOK ?g' (fst e) (snd e)" if e: "e \<in> set (g_teams ?g')" for e
  proof -
    from e have old: "(fst e, snd e) \<in> set (g_teams g)" and other: "fst e \<noteq> tk" by auto
    have "m \<in> set ?ps \<and> p_teamId (g_store g ! snd m) = Some (fst e)"
      if m: "m \<in> set (t_players (snd e))" for m
    proof -
      have mm: "(fst m, snd m) \<in> set (t_players (snd e))" using m by simp
      note facts = consistent_member[OF inv old mm]
      have "fst m \<notin> memberIds (g_store g) team"
      proof
        assume "fst m \<in> memberIds (g_store g) team"
        then obtain m' where m': "m' \<in> set (t_players team)"
          and id: "p_id (g_store g ! snd m') = fst m"
          by (auto simp: memberIds_def Map_values_def)
        have mm': "(fst m', snd m') \<in> set (t_players team)" using m' by simp
        have "fst m' = fst m" using consistent_member[OF inv team mm'] id by simp
        then have "(fst m, snd m') \<in> set (t_players team)" using mm' by simp
        from consistent_one_team[OF inv team this old mm] show False using other by simp
      qed
      then show ?thesis using facts by simp
    qed
    moreover have "fst e \<noteq> [] \<and> t_id (snd e) = fst e"
      using inv old by (auto simp: consistent_def teamOK_def)
    ultimately show ?thesis by (simp add: teamOK_def)
  qed
  then have "consistent ?g'" using p d by (simp add: consistent_def)
  then show ?thesis using Some
    by (simp add: Game_removeTeam_def deletePlayers_filter memberIds_def Map_delete_def)
qed

lemma teamOK_cong:
  assumes "g_players g' = g_players g" and "g_store g' = g_store g"
  shows "teamOK g' tk t = teamOK g tk t"
  using assms by (simp add: teamOK_def)

lemma consistent_team_update:
  assumes inv: "consistent g" and present: "Map_has (g_teams g) tk" and ok: "teamOK g tk t'"
  shows "consistent (g\<lparr>g_teams := Map_set (g_teams g) tk t'\<rparr>)" (is "consistent ?g'")
proof -
  have p: "playersOK ?g'" using inv by (simp add: consistent_def playersOK_def)
  have d: "distinct (map fst (g_teams g))" using inv by (simp add: consistent_def)
  then have d': "distinct (map fst (g_teams ?g'))" using present by (simp add: Map_set_present_keys)
  have "teamOK ?g' (fst e) (snd e)" if "e \<in> set (g_teams ?g')" for e
  proof -
    from that have "(fst e, snd e) \<in> set (Map_set (g_teams g) tk t')" by simp
    from Map_set_distinct_entry[OF d present this]
    have "teamOK g (fst e) (snd e)" using ok inv by (auto simp: consistent_def)
    then show ?thesis by (simp add: teamOK_def)
  qed
  then show ?thesis using p d' by (simp add: consistent_def)
qed

lemma consistent_new_player:
  assumes inv: "consistent g" and fresh: "\<not> Map_has (g_players g) k" and id: "p_id p = k"
  shows "consistent (g\<lparr>g_store := g_store g @ [p],
                       g_players := g_players g @ [(k, length (g_store g))]\<rparr>)"
    (is "consistent ?g1")
proof -
  have old: "snd e < length (g_store g) \<and> p_id (g_store g ! snd e) = fst e"
    if "e \<in> set (g_players g)" for e
    using inv that by (simp add: consistent_def playersOK_def)
  have "length (g_store g) \<notin> set (map snd (g_players g))"
    using old by fastforce
  moreover have "snd e < length (g_store ?g1) \<and> p_id (g_store ?g1 ! snd e) = fst e"
    if "e \<in> set (g_players ?g1)" for e
    using that old[of e] id by (auto simp: nth_append)
  ultimately have p: "playersOK ?g1"
    using inv fresh unfolding consistent_def playersOK_def Map_has_def by simp
  have "teamOK ?g1 (fst e) (snd e)" if e: "e \<in> set (g_teams ?g1)" for e
  proof -
    have ok: "teamOK g (fst e) (snd e)" using inv e by (simp add: consistent_def)
    have "m \<in> set (g_players ?g1) \<and> p_teamId (g_store ?g1 ! snd m) = Some (fst e)"
      if m: "m \<in> set (t_players (snd e))" for m
    proof -
      have "m \<in> set (g_players g)" and t: "p_teamId (g_store g ! snd m) = Some (fst e)"
        using ok m by (auto simp: teamOK_def)
      then show ?thesis using old[of m] by (simp add: nth_append)
    qed
    then show ?thesis using ok by (simp add: teamOK_def)
  qed
  then show ?thesis using inv p by (simp add: consistent_def)
qed

lemma Team_addPlayer_ok:
  assumes "p_id (st ! r) = k" and "k \<noteq> []" and "\<not> Map_has (t_players t) k" and "t_id t \<noteq> []"
  shows "Team_addPlayer r st t =
     (Inr (), st[r := (st ! r)\<lparr>p_teamId := Some (t_id t)\<rparr>],
      t\<lparr>t_players := t_players t @ [(k, r)]\<rparr>)"
  using assms by (simp add: Team_addPlayer_def Player_joinTeam_def Let_def Map_set_absent)

lemma addPlayer_consistent:
  assumes inv: "consistent g"
  shows "consistent (snd (Game_addPlayer k n tid g))"
proof (cases "Map_has (g_players g) k")
  case True
  then show ?thesis using inv by (simp add: Game_addPlayer_def)
next
  case fresh: False
  show ?thesis
  proof (cases "Player_new k n tid")
    case (Inl e)
    then show ?thesis using inv fresh by (simp add: Game_addPlayer_def)
  next
    case (Inr p)
    then have p: "p_id p = k" "p_teamId p = tid" "k \<noteq> []"
      by (auto simp: Player_new_def split: if_splits)
    let ?r = "length (g_store g)"
    let ?g1 = "g\<lparr>g_store := g_store g @ [p], g_players := g_players g @ [(k, ?r)]\<rparr>"
    have g1: "consistent ?g1" using inv fresh p(1) by (rule consistent_new_player)
    show ?thesis
    proof (cases "truthy tid \<and> Map_has (g_teams g) (the tid)")
      case False
      then show ?thesis using g1 fresh Inr
        by (auto simp: Game_addPlayer_def Let_def Map_set_absent)
    next
      case True
      then obtain tk where tid: "tid = Some tk" and tk: "tk \<noteq> []"
        by (cases tid) (auto simp: truthy_def)
      from True tid obtain team where get: "Map_get (g_teams g) tk = Some team"
        by (auto simp: Map_has_get)
      then have team: "(tk, team) \<in> set (g_teams g)" by (rule Map_get_entry)
      have tOK: "teamOK g tk team" using inv team by (auto simp: consistent_def)
      have notin: "\<not> Map_has (t_players team) k"
      proof
        assume "Map_has (t_players team) k"
        then obtain r' where "(k, r') \<in> set (t_players team)" by (auto simp: Map_has_def)
        then have "(k, r') \<in> set (g_players g)" using consistent_member[OF inv team] by blast
        then show False using fresh by (force simp: Map_has_def)
      qed
      let ?st' = "(g_store ?g1)[?r := (g_store ?g1 ! ?r)\<lparr>p_teamId := Some (t_id team)\<rparr>]"
      let ?t' = "team\<lparr>t_players := t_players team @ [(k, ?r)]\<rparr>"
      have call: "Team_addPlayer ?r (g_store ?g1) team = (Inr (), ?st', ?t')"
        using p notin tOK by (intro Team_addPlayer_ok) (simp_all add: teamOK_def)
      have result: "snd (Game_addPlayer k n tid g) =
          ?g1\<lparr>g_store := ?st', g_teams := Map_set (g_teams ?g1) tk ?t'\<rparr>"
        using fresh Inr True tid get call
        by (simp add: Game_addPlayer_def Let_def Map_set_absent)
      have "teamOK ?g1 tk ?t'"
      proof -
        have "teamOK ?g1 tk team" using g1 team by (auto simp: consistent_def)
        then show ?thesis using p tid by (auto simp: teamOK_def)
      qed
      then have "consistent (?g1\<lparr>g_teams := Map_set (g_teams ?g1) tk ?t'\<rparr>)"
        using g1 True tid by (intro consistent_team_update) simp_all
      moreover have "sameIdentity ?st' (g_store ?g1)"
        using p tid tOK by (intro sameIdentity_update) (simp_all add: teamOK_def)
      ultimately have "consistent (?g1\<lparr>g_teams := Map_set (g_teams ?g1) tk ?t', g_store := ?st'\<rparr>)"
        using consistent_sameIdentity[of "?g1\<lparr>g_teams := Map_set (g_teams ?g1) tk ?t'\<rparr>" ?st']
        by simp
      moreover have "consistent (?g1\<lparr>g_store := ?st', g_teams := Map_set (g_teams ?g1) tk ?t'\<rparr>) =
          consistent (?g1\<lparr>g_teams := Map_set (g_teams ?g1) tk ?t', g_store := ?st'\<rparr>)"
        by (rule consistent_cong) simp_all
      ultimately show ?thesis using result by simp
    qed
  qed
qed

lemma consistent_drop_player:
  assumes inv: "consistent g" and entry: "(k, r) \<in> set (g_players g)"
    and keys: "distinct (map fst ts')"
    and teams: "\<And>tk t. (tk, t) \<in> set ts' \<Longrightarrow>
        tk \<noteq> [] \<and> t_id t = tk \<and>
        (\<forall>m \<in> set (t_players t). m \<in> set (g_players g) \<and> fst m \<noteq> k \<and>
            p_teamId (g_store g ! snd m) = Some tk)"
    and len: "length st' = length (g_store g)"
    and rest: "\<And>i. i \<noteq> r \<Longrightarrow> st' ! i = g_store g ! i"
  shows "consistent (g\<lparr>g_store := st', g_teams := ts',
                       g_players := filter (\<lambda>e. fst e \<noteq> k) (g_players g)\<rparr>)"
    (is "consistent ?g'")
proof -
  have pOK: "playersOK g" using inv by (simp add: consistent_def)
  have other: "snd e \<noteq> r" if "e \<in> set (g_players g)" and "fst e \<noteq> k" for e
  proof
    assume "snd e = r"
    then have "(fst e, r) \<in> set (g_players g)" using that(1) by (metis prod.collapse)
    from playersOK_same_key[OF pOK entry this] show False using that(2) by simp
  qed
  have "snd e < length (g_store ?g') \<and> p_id (g_store ?g' ! snd e) = fst e"
    if "e \<in> set (g_players ?g')" for e
  proof -
    from that have e: "e \<in> set (g_players g)" "fst e \<noteq> k" by auto
    then have "snd e < length (g_store g) \<and> p_id (g_store g ! snd e) = fst e"
      using pOK by (simp add: playersOK_def)
    then show ?thesis using rest[OF other[OF e]] len by simp
  qed
  then have p: "playersOK ?g'"
    using pOK unfolding playersOK_def by (simp add: distinct_map_filter)
  have "teamOK ?g' (fst e) (snd e)" if "e \<in> set (g_teams ?g')" for e
  proof -
    from that have "(fst e, snd e) \<in> set ts'" by simp
    note t = teams[OF this]
    have "m \<in> set (g_players ?g') \<and> p_teamId (g_store ?g' ! snd m) = Some (fst e)"
      if "m \<in> set (t_players (snd e))" for m
    proof -
      have m: "m \<in> set (g_players g)" "fst m \<noteq> k"
        "p_teamId (g_store g ! snd m) = Some (fst e)"
        using t that by auto
      then show ?thesis using rest[OF other[OF m(1,2)]] by simp
    qed
    then show ?thesis using t by (simp add: teamOK_def)
  qed
  then show ?thesis using p keys by (simp add: consistent_def)
qed

lemma removePlayer_consistent:
  assumes inv: "consistent g"
  shows "consistent (snd (Game_removePlayer k g))"
proof (cases "Map_get (g_players g) k")
  case None
  then show ?thesis using inv by (simp add: Game_removePlayer_def)
next
  case (Some r)
  then have entry: "(k, r) \<in> set (g_players g)" by (rule Map_get_entry)
  have pOK: "playersOK g" and keys: "distinct (map fst (g_teams g))"
    using inv by (simp_all add: consistent_def)
  let ?player = "g_store g ! r"
  let ?tk = "the (p_teamId ?player)"
  show ?thesis
  proof (cases "truthy (p_teamId ?player) \<and> Map_has (g_teams g) ?tk")
    case False
    have "tk \<noteq> [] \<and> t_id t = tk \<and>
        (\<forall>m \<in> set (t_players t). m \<in> set (g_players g) \<and> fst m \<noteq> k \<and>
            p_teamId (g_store g ! snd m) = Some tk)"
      if t: "(tk, t) \<in> set (g_teams g)" for tk t
    proof -
      have "fst m \<noteq> k" if m: "m \<in> set (t_players t)" for m
      proof
        assume "fst m = k"
        then have mm: "(k, snd m) \<in> set (t_players t)" using m by (metis prod.collapse)
        note facts = consistent_member[OF inv t mm]
        then have "snd m = r" using playersOK_same_ref[OF pOK entry] by blast
        then have "p_teamId ?player = Some tk" and "tk \<noteq> []" using facts by simp_all
        moreover have "Map_has (g_teams g) tk" using t by (force simp: Map_has_def)
        ultimately show False using False by (simp add: truthy_def)
      qed
      moreover have "m \<in> set (g_players g) \<and> p_teamId (g_store g ! snd m) = Some tk"
        if m: "m \<in> set (t_players t)" for m
        using consistent_member[OF inv t, of "fst m" "snd m"] m by simp
      moreover have "tk \<noteq> [] \<and> t_id t = tk"
        using inv t by (auto simp: consistent_def teamOK_def)
      ultimately show ?thesis by blast
    qed
    from consistent_drop_player[OF inv entry keys this, of "g_store g"]
    have "consistent (g\<lparr>g_store := g_store g, g_teams := g_teams g,
                        g_players := filter (\<lambda>e. fst e \<noteq> k) (g_players g)\<rparr>)"
      by simp
    then show ?thesis using Some False
      by (auto simp: Game_removePlayer_def Let_def Map_delete_def)
  next
    case True
    then obtain team where get: "Map_get (g_teams g) ?tk = Some team"
      by (auto simp: Map_has_get)
    then have team: "(?tk, team) \<in> set (g_teams g)" by (rule Map_get_entry)
    from True have tid: "p_teamId ?player = Some ?tk" by (cases "p_teamId ?player") (auto simp: truthy_def)
    show ?thesis
    proof (cases "Map_get (t_players team) k")
      case None
      then show ?thesis using inv Some True get
        by (simp add: Game_removePlayer_def Let_def Team_removePlayer_def)
    next
      case member: (Some r')
      then have "(k, r') \<in> set (t_players team)" by (rule Map_get_entry)
      then have r': "r' = r" and inteam: "(k, r) \<in> set (t_players team)"
        using consistent_member[OF inv team] playersOK_same_ref[OF pOK entry] by blast+
      let ?st' = "(g_store g)[r := Player_leaveTeam ?player]"
      let ?t' = "team\<lparr>t_players := filter (\<lambda>e. fst e \<noteq> k) (t_players team)\<rparr>"
      let ?ts' = "Map_set (g_teams g) ?tk ?t'"
      have result: "snd (Game_removePlayer k g) =
          g\<lparr>g_store := ?st', g_teams := ?ts', g_players := filter (\<lambda>e. fst e \<noteq> k) (g_players g)\<rparr>"
        using Some True get member r'
        by (simp add: Game_removePlayer_def Let_def Team_removePlayer_def Map_delete_def)
      have keys': "distinct (map fst ?ts')"
        using keys True by (simp add: Map_set_present_keys)
      have "tk \<noteq> [] \<and> t_id t = tk \<and>
          (\<forall>m \<in> set (t_players t). m \<in> set (g_players g) \<and> fst m \<noteq> k \<and>
              p_teamId (g_store g ! snd m) = Some tk)"
        if t: "(tk, t) \<in> set ?ts'" for tk t
      proof -
        have present: "Map_has (g_teams g) ?tk" using True by simp
        from Map_set_distinct_entry[OF keys present t]
        consider (this_team) "tk = ?tk" "t = ?t'" | (other) "tk \<noteq> ?tk" "(tk, t) \<in> set (g_teams g)"
          by blast
        then show ?thesis
        proof cases
          case this_team
          have "m \<in> set (g_players g) \<and> fst m \<noteq> k \<and> p_teamId (g_store g ! snd m) = Some tk"
            if "m \<in> set (t_players t)" for m
          proof -
            from that this_team have m: "m \<in> set (t_players team)" "fst m \<noteq> k" by auto
            then show ?thesis
              using consistent_member[OF inv team, of "fst m" "snd m"] this_team by simp
          qed
          moreover have "tk \<noteq> [] \<and> t_id t = tk"
            using consistent_member[OF inv team inteam] this_team by simp
          ultimately show ?thesis by blast
        next
          case other
          have "fst m \<noteq> k" if m: "m \<in> set (t_players t)" for m
          proof
            assume "fst m = k"
            then have "(k, snd m) \<in> set (t_players t)" using m by (metis prod.collapse)
            from consistent_one_team[OF inv team inteam other(2) this]
            show False using other(1) by simp
          qed
          moreover have "m \<in> set (g_players g) \<and> p_teamId (g_store g ! snd m) = Some tk"
            if m: "m \<in> set (t_players t)" for m
            using consistent_member[OF inv other(2), of "fst m" "snd m"] m by simp
          moreover have "tk \<noteq> [] \<and> t_id t = tk"
            using inv other(2) by (auto simp: consistent_def teamOK_def)
          ultimately show ?thesis by blast
        qed
      qed
      from consistent_drop_player[OF inv entry keys' this, of ?st']
      show ?thesis using result by simp
    qed
  qed
qed

lemma game_call_consistent:
  assumes inv: "consistent g"
  shows "consistent (game_call c g)"
proof (cases c)
  case StartGame
  then show ?thesis using inv by (simp add: startGame_consistent)
next
  case PauseGame
  have "consistent (snd (Game_pauseGame g)) = consistent g"
    by (rule consistent_cong) (simp_all add: Game_pauseGame_def)
  then show ?thesis using PauseGame inv by simp
next
  case ResumeGame
  have "consistent (snd (Game_resumeGame g)) = consistent g"
    by (rule consistent_cong) (simp_all add: Game_resumeGame_def)
  then show ?thesis using ResumeGame inv by simp
next
  case EndGame
  have "consistent (Game_endGame g) = consistent g"
    by (rule consistent_cong) (simp_all add: Game_endGame_def)
  then show ?thesis using EndGame inv by simp
next
  case NextRound
  then show ?thesis using inv by (simp add: nextRound_consistent)
next
  case (CreateTeam k n col rnd)
  then show ?thesis using inv by (simp add: createTeam_consistent)
next
  case (RemoveTeam k)
  then show ?thesis using inv by (simp add: removeTeam_consistent)
next
  case (AddPlayer k n t)
  then show ?thesis using inv by (simp add: addPlayer_consistent)
next
  case (RemovePlayer k)
  then show ?thesis using inv by (simp add: removePlayer_consistent)
next
  case (SetCurrentWord w)
  have "consistent (snd (Game_setCurrentWord w g)) = consistent g"
    by (rule consistent_cong) (simp_all add: Game_setCurrentWord_def split: jsvalue.splits)
  then show ?thesis using SetCurrentWord inv by simp
next
  case (SetPlayerReady k b)
  then show ?thesis using inv by (simp add: setPlayerReady_consistent)
qed

lemma game_calls_consistent: "consistent g \<Longrightarrow> consistent (game_calls cs g)"
  by (induction cs arbitrary: g) (simp_all add: game_call_consistent)

lemma consistent_teamMembersRegistered:
  assumes "consistent g"
  shows "teamMembersRegistered g"
proof -
  have "Map_has (g_players g) k"
    if "t \<in> set (Map_values (g_teams g))" and "k \<in> set (map fst (t_players t))" for t k
  proof -
    from that obtain tk r where "(tk, t) \<in> set (g_teams g)" and "(k, r) \<in> set (t_players t)"
      by (auto simp: Map_values_def)
    then have "(k, r) \<in> set (g_players g)" using consistent_member[OF assms] by blast
    then show ?thesis by (force simp: Map_has_def)
  qed
  then show ?thesis by (simp add: teamMembersRegistered_def list_all_iff)
qed

lemma reachable_teamMembersRegistered:
  assumes "Game_new gid gname mt mp = Inr g0"
  shows "teamMembersRegistered (game_calls cs g0)"
proof -
  from assms have "consistent g0"
    by (auto simp: Game_new_def consistent_def playersOK_def split: if_splits)
  then have "consistent (game_calls cs g0)" by (rule game_calls_consistent)
  then show ?thesis by (rule consistent_teamMembersRegistered)
qed

end
